theory Spec2Isabelle
  imports Main
begin

section \<open>DTMerger: data model\<close>

text \<open>
  A shallow embedding of \<^verbatim>\<open>DTMerger.py\<close>. The libraries the program calls (Pillow,
  xdwlib, tempfile, Qt) are not part of the program: what they return is taken from an
  environment record, one field per call that may raise, and what they do to the
  machine is written into an explicit world record.
\<close>

type_synonym path = string

text \<open>The exceptions that can reach a caller, one constructor per raising call.\<close>

datatype error =
    OpenError             \<comment> \<open>\<^verbatim>\<open>Image.open\<close> or \<^verbatim>\<open>xdwopen\<close> raised\<close>
  | IndexError            \<comment> \<open>\<^verbatim>\<open>raise IndexError\<close> in \<^verbatim>\<open>load_tiff_page\<close>\<close>
  | SeekError             \<comment> \<open>\<^verbatim>\<open>img.seek\<close> raised (frame outside the sequence)\<close>
  | ExportError           \<comment> \<open>\<^verbatim>\<open>doc.page(i).export_image\<close> raised\<close>
  | DecodeError           \<comment> \<open>reading the exported artifact back raised\<close>
  | ConvertError          \<comment> \<open>\<^verbatim>\<open>img.convert\<close> raised\<close>
  | CloseError            \<comment> \<open>\<^verbatim>\<open>doc.close\<close> raised\<close>
  | TempDirError          \<comment> \<open>\<^verbatim>\<open>tempfile.TemporaryDirectory()\<close> raised\<close>
  | CleanupError          \<comment> \<open>removing the temporary directory raised on leaving the \<^verbatim>\<open>with\<close>\<close>
  | NoPagesError          \<comment> \<open>\<^verbatim>\<open>raise RuntimeError\<close> in \<^verbatim>\<open>create_merged_tiff\<close>\<close>
  | SaveError             \<comment> \<open>\<^verbatim>\<open>first.save\<close> raised\<close>
  | ValueError            \<comment> \<open>\<^verbatim>\<open>Path.with_suffix\<close> raised\<close>

text \<open>A decoded image: its Pillow mode string and its pixel data.\<close>

record frame =
  mode :: string
  pixels :: "nat list"

text \<open>\<^verbatim>\<open>@dataclass class PageEntry\<close>.\<close>

record PageEntry =
  source_path :: path
  page_index :: int
  source_type :: string

definition TIFF_EXTENSIONS :: "string list" where
  "TIFF_EXTENSIONS = [''.tif'', ''.tiff'']"

definition DOCUWORKS_EXTENSIONS :: "string list" where
  "DOCUWORKS_EXTENSIONS = [''.xdw'', ''.xbd'', ''.xct'']"

definition SUPPORTED_EXTENSIONS :: "string list" where
  "SUPPORTED_EXTENSIONS = TIFF_EXTENSIONS @ DOCUWORKS_EXTENSIONS"

subsection \<open>Paths and strings\<close>

text \<open>\<^verbatim>\<open>Path.name\<close>: the final component of the path.\<close>

definition path_name :: "path \<Rightarrow> string" where
  "path_name p = rev (takeWhile (\<lambda>c. c \<noteq> CHR ''/'') (rev p))"

text \<open>
  \<^verbatim>\<open>Path.suffix\<close>: the name from its last dot on, empty when the name has no dot or
  the last dot is its first or its last character.
\<close>

definition path_suffix :: "path \<Rightarrow> string" where
  "path_suffix p =
     (let n = path_name p;
          t = takeWhile (\<lambda>c. c \<noteq> CHR ''.'') (rev n)
      in if CHR ''.'' \<notin> set n then []
         else if 0 < length n - length t - 1 \<and> 0 < length t
         then drop (length n - length t - 1) n
         else [])"

text \<open>\<^verbatim>\<open>str.lower\<close> on the ASCII letters.\<close>

definition lower_char :: "char \<Rightarrow> char" where
  "lower_char c =
     (case map_of (zip ''ABCDEFGHIJKLMNOPQRSTUVWXYZ'' ''abcdefghijklmnopqrstuvwxyz'') c of
        None \<Rightarrow> c | Some d \<Rightarrow> d)"

definition lower :: "string \<Rightarrow> string" where
  "lower s = map lower_char s"

section \<open>The page list\<close>

text \<open>
  The \<^verbatim>\<open>QListWidget\<close> holding the catalog: the entries attached to its rows, in row
  order, and the current row (\<open>-1\<close> when no row is current).
\<close>

record page_list =
  entries_of :: "PageEntry list"
  current_row :: int

definition count :: "page_list \<Rightarrow> int" where
  "count pl = int (length (entries_of pl))"

text \<open>
  \<^verbatim>\<open>takeItem(row)\<close> removes and returns the item of a row, and returns nothing for a
  row outside the list. Qt also moves the current row when the current item is taken;
  both callers set the current row themselves right after, so the field is left to
  \<open>setCurrentRow\<close>.
\<close>

definition takeItem :: "int \<Rightarrow> page_list \<Rightarrow> PageEntry option \<times> page_list" where
  "takeItem row pl =
     (if row < 0 \<or> count pl \<le> row then (None, pl)
      else (Some (entries_of pl ! nat row),
            pl\<lparr>entries_of := take (nat row) (entries_of pl) @ drop (Suc (nat row)) (entries_of pl)\<rparr>))"

text \<open>\<^verbatim>\<open>insertItem(row, item)\<close>: Qt clamps the row into \<open>0..count\<close> and ignores a null item.\<close>

definition insertItem :: "int \<Rightarrow> PageEntry option \<Rightarrow> page_list \<Rightarrow> page_list" where
  "insertItem row item pl =
     (case item of
        None \<Rightarrow> pl
      | Some e \<Rightarrow>
          (let r = (if row < 0 then 0 else if count pl < row then length (entries_of pl) else nat row)
           in pl\<lparr>entries_of := take r (entries_of pl) @ [e] @ drop r (entries_of pl)\<rparr>))"

text \<open>\<^verbatim>\<open>setCurrentRow(row)\<close>: a row outside the list clears the current row.\<close>

definition setCurrentRow :: "int \<Rightarrow> page_list \<Rightarrow> page_list" where
  "setCurrentRow row pl =
     pl\<lparr>current_row := (if 0 \<le> row \<and> row < count pl then row else - 1)\<rparr>"

definition move_selected_up :: "page_list \<Rightarrow> page_list" where
  "move_selected_up pl =
     (let row = current_row pl
      in if row \<le> 0 then pl
         else (let (item, pl1) = takeItem row pl;
                   pl2 = insertItem (row - 1) item pl1
               in setCurrentRow (row - 1) pl2))"

definition move_selected_down :: "page_list \<Rightarrow> page_list" where
  "move_selected_down pl =
     (let row = current_row pl
      in if row < 0 \<or> count pl - 1 \<le> row then pl
         else (let (item, pl1) = takeItem row pl;
                   pl2 = insertItem (row + 1) item pl1
               in setCurrentRow (row + 1) pl2))"

section \<open>The environment and the world\<close>

text \<open>A live \<^verbatim>\<open>xdwopen\<close> handle: the document it was opened on and a serial number.\<close>

record handle =
  handle_path :: path
  handle_id :: nat

text \<open>
  What the library calls return. Each field is the outcome of one call of the source
  that may raise; \<open>Inl\<close> and \<open>Some\<close> carry the exception.
\<close>

record env =
  image_open :: "path \<Rightarrow> error + frame list"
    \<comment> \<open>\<^verbatim>\<open>Image.open(path)\<close> on a source file: the frames of the container\<close>
  xdw_pages :: "path \<Rightarrow> error + int"
    \<comment> \<open>\<^verbatim>\<open>xdwopen(path).pages\<close>\<close>
  xdwopen :: "path \<Rightarrow> error option"
    \<comment> \<open>\<^verbatim>\<open>xdwopen(path, readonly=True)\<close>: \<open>None\<close> when a handle is returned\<close>
  export_image :: "path \<Rightarrow> int \<Rightarrow> error + frame"
    \<comment> \<open>\<^verbatim>\<open>doc.page(i).export_image(...)\<close>: the raster it writes\<close>
  reopen :: "path \<Rightarrow> error option"
    \<comment> \<open>\<^verbatim>\<open>Image.open(temp_tiff)\<close> and \<^verbatim>\<open>img.copy()\<close> on an exported artifact\<close>
  convert :: "string \<Rightarrow> frame \<Rightarrow> error + nat list"
    \<comment> \<open>\<^verbatim>\<open>img.convert(mode)\<close>: the pixel data of the converted image\<close>
  doc_close :: "handle \<Rightarrow> error option"
    \<comment> \<open>\<^verbatim>\<open>doc.close()\<close>\<close>
  mkdtemp :: "error + path"
    \<comment> \<open>\<^verbatim>\<open>tempfile.TemporaryDirectory()\<close>: the directory it creates\<close>
  cleanup :: "path \<Rightarrow> error option"
    \<comment> \<open>leaving the \<^verbatim>\<open>with\<close> block, which removes the directory (the default
        \<^verbatim>\<open>ignore_cleanup_errors=False\<close>): \<open>Some\<close> when an entry cannot be deleted\<close>
  save :: "path \<Rightarrow> frame list \<Rightarrow> string \<Rightarrow> error option"
    \<comment> \<open>\<^verbatim>\<open>first.save(output_path, ..., append_images=rest, compression=...)\<close>\<close>

datatype fs_event = MakeDir path | WriteFile path | RemoveTree path

text \<open>
  The machine as far as a merge touches it: the temporary directories with their files,
  the output files written (frames, compression, dpi), every mutation of the filesystem
  in order, and every handle ever opened and every handle closed, in order.
\<close>

record world =
  temp_dirs :: "path \<rightharpoonup> (string \<rightharpoonup> frame)"
  out_files :: "path \<rightharpoonup> (frame list \<times> string \<times> nat \<times> nat)"
  fs_log :: "fs_event list"
  opened :: "handle list"
  closed :: "handle list"

section \<open>Adding files\<close>

definition get_tiff_page_count :: "env \<Rightarrow> path \<Rightarrow> error + int" where
  "get_tiff_page_count ev p =
     (case image_open ev p of Inl exc \<Rightarrow> Inl exc | Inr fs \<Rightarrow> Inr (int (length fs)))"

definition get_docuworks_page_count :: "env \<Rightarrow> path \<Rightarrow> error + int" where
  "get_docuworks_page_count ev p = xdw_pages ev p"

text \<open>The inner loop \<^verbatim>\<open>for page_index in range(page_count)\<close>: one entry per page.\<close>

definition page_entries :: "path \<Rightarrow> int \<Rightarrow> string \<Rightarrow> PageEntry list" where
  "page_entries p page_count st =
     map (\<lambda>i. \<lparr>source_path = p, page_index = int i, source_type = st\<rparr>) [0 ..< nat page_count]"

text \<open>
  The loop of \<^verbatim>\<open>add_files\<close> over the paths, with its two accumulators: the rows of the
  list and \<^verbatim>\<open>errors\<close>, a line per failed file (the file's name and the exception).
\<close>

fun add_files_loop ::
  "env \<Rightarrow> path list \<Rightarrow> PageEntry list \<Rightarrow> (string \<times> error) list
     \<Rightarrow> PageEntry list \<times> (string \<times> error) list" where
  "add_files_loop ev [] rows errors = (rows, errors)"
| "add_files_loop ev (p # paths) rows errors =
     (let ext = lower (path_suffix p)
      in if ext \<in> set TIFF_EXTENSIONS then
           (case get_tiff_page_count ev p of
              Inl exc \<Rightarrow> add_files_loop ev paths rows (errors @ [(path_name p, exc)])
            | Inr page_count \<Rightarrow>
                add_files_loop ev paths (rows @ page_entries p page_count ''tiff'') errors)
         else if ext \<in> set DOCUWORKS_EXTENSIONS then
           (case get_docuworks_page_count ev p of
              Inl exc \<Rightarrow> add_files_loop ev paths rows (errors @ [(path_name p, exc)])
            | Inr page_count \<Rightarrow>
                add_files_loop ev paths (rows @ page_entries p page_count ''docuworks'') errors)
         else add_files_loop ev paths rows errors)"

text \<open>
  \<^verbatim>\<open>add_files\<close>: the list after the call and the warning dialog, if one is shown (a
  single \<^verbatim>\<open>QMessageBox.warning\<close> with the lines of \<^verbatim>\<open>errors\<close>).
\<close>

definition add_files :: "env \<Rightarrow> path list \<Rightarrow> page_list \<Rightarrow> page_list \<times> (string \<times> error) list option" where
  "add_files ev paths pl =
     (let (rows, errors) = add_files_loop ev paths (entries_of pl) []
      in (pl\<lparr>entries_of := rows\<rparr>, if errors \<noteq> [] then Some errors else None))"

section \<open>Reading pages\<close>

definition load_tiff_page :: "env \<Rightarrow> path \<Rightarrow> int \<Rightarrow> error + frame" where
  "load_tiff_page ev p idx =
     (case image_open ev p of
        Inl exc \<Rightarrow> Inl exc
      | Inr fs \<Rightarrow>
          (let max_index = int (length fs) - 1
           in if idx > max_index then Inl IndexError
              else if idx < 0 then Inl SeekError
              else Inr (fs ! nat idx)))"

text \<open>The decimal digits of a number, and \<^verbatim>\<open>f"{order:05d}"\<close>.\<close>

fun digits :: "nat \<Rightarrow> string" where
  "digits n =
     (if n < 10 then [''0123456789'' ! n]
      else digits (n div 10) @ [''0123456789'' ! (n mod 10)])"

definition pad5 :: "nat \<Rightarrow> string" where
  "pad5 n = replicate (5 - length (digits n)) (CHR ''0'') @ digits n"

definition temp_name :: "nat \<Rightarrow> string" where
  "temp_name order = ''docuworks_'' @ pad5 order @ ''.tif''"

type_synonym docs = "(path \<times> handle) list"

text \<open>
  The second half of \<^verbatim>\<open>convert_docuworks_page\<close>, from \<^verbatim>\<open>temp_tiff = ...\<close> on: the page
  is exported into the temporary directory and read back.
\<close>

definition export_page ::
  "env \<Rightarrow> handle \<Rightarrow> PageEntry \<Rightarrow> nat \<Rightarrow> path \<Rightarrow> world \<Rightarrow> (error + frame) \<times> world" where
  "export_page ev doc entry order temp_dir w =
     (let temp_tiff = temp_dir @ ''/'' @ temp_name order
      in case export_image ev (handle_path doc) (page_index entry) of
           Inl exc \<Rightarrow> (Inl exc, w)
         | Inr raster \<Rightarrow>
             (case temp_dirs w temp_dir of
                None \<Rightarrow> (Inl ExportError, w)
              | Some files \<Rightarrow>
                  (let w1 = w\<lparr>temp_dirs := (temp_dirs w)(temp_dir \<mapsto> files(temp_name order \<mapsto> raster)),
                              fs_log := fs_log w @ [WriteFile temp_tiff]\<rparr>
                   in case reopen ev temp_tiff of
                        Some exc \<Rightarrow> (Inl exc, w1)
                      | None \<Rightarrow> (Inr raster, w1))))"

text \<open>
  \<^verbatim>\<open>convert_docuworks_page\<close>. The dictionary \<^verbatim>\<open>opened_docs\<close> is an association list in
  insertion order, as a Python dict iterates; a key is only ever added when absent.
\<close>

definition convert_docuworks_page ::
  "env \<Rightarrow> PageEntry \<Rightarrow> nat \<Rightarrow> path \<Rightarrow> docs \<Rightarrow> world \<Rightarrow> (error + frame) \<times> docs \<times> world" where
  "convert_docuworks_page ev entry order temp_dir opened_docs w =
     (case map_of opened_docs (source_path entry) of
        Some doc \<Rightarrow>
          (let (r, w1) = export_page ev doc entry order temp_dir w in (r, opened_docs, w1))
      | None \<Rightarrow>
          (case xdwopen ev (source_path entry) of
             Some exc \<Rightarrow> (Inl exc, opened_docs, w)
           | None \<Rightarrow>
               (let doc = \<lparr>handle_path = source_path entry, handle_id = length (opened w)\<rparr>;
                    w0 = w\<lparr>opened := opened w @ [doc]\<rparr>;
                    (r, w1) = export_page ev doc entry order temp_dir w0
                in (r, opened_docs @ [(source_path entry, doc)], w1))))"

text \<open>\<^verbatim>\<open>Image.convert(mode)\<close> returns a new image of the mode it is asked for.\<close>

definition image_convert :: "env \<Rightarrow> string \<Rightarrow> frame \<Rightarrow> error + frame" where
  "image_convert ev m img =
     (case convert ev m img of
        Inl exc \<Rightarrow> Inl exc
      | Inr px \<Rightarrow> Inr \<lparr>mode = m, pixels = px\<rparr>)"

definition ensure_group4_mode :: "env \<Rightarrow> frame \<Rightarrow> error + frame" where
  "ensure_group4_mode ev img = (if mode img = ''1'' then Inr img else image_convert ev ''1'' img)"

section \<open>The merge\<close>

text \<open>
  The body of the \<^verbatim>\<open>try\<close> in \<^verbatim>\<open>create_merged_tiff\<close>: the loop over
  \<^verbatim>\<open>enumerate(entries)\<close>, from position \<open>order\<close> on. It returns the frames, or the
  exception that left the loop, with the dictionary of handles and the world at that
  point.
\<close>

fun merge_pages ::
  "env \<Rightarrow> path \<Rightarrow> string \<Rightarrow> nat \<Rightarrow> PageEntry list \<Rightarrow> frame list \<Rightarrow> docs \<Rightarrow> world
     \<Rightarrow> (error + frame list) \<times> docs \<times> world" where
  "merge_pages ev temp_dir compression order [] frames xdw_docs w = (Inr frames, xdw_docs, w)"
| "merge_pages ev temp_dir compression order (entry # rest) frames xdw_docs w =
     (let (r, docs1, w1) =
            (if source_type entry = ''tiff''
             then (load_tiff_page ev (source_path entry) (page_index entry), xdw_docs, w)
             else convert_docuworks_page ev entry order temp_dir xdw_docs w)
      in case r of
           Inl exc \<Rightarrow> (Inl exc, docs1, w1)
         | Inr frame \<Rightarrow>
             (case (if compression = ''group4'' then ensure_group4_mode ev frame else Inr frame) of
                Inl exc \<Rightarrow> (Inl exc, docs1, w1)
              | Inr frame1 \<Rightarrow>
                  merge_pages ev temp_dir compression (Suc order) rest (frames @ [frame1]) docs1 w1))"

text \<open>
  The \<^verbatim>\<open>finally\<close> block: \<^verbatim>\<open>for doc in xdw_docs.values(): doc.close()\<close>. Nothing
  catches a \<^verbatim>\<open>close\<close> that raises, so the loop stops there.
\<close>

fun close_docs :: "env \<Rightarrow> handle list \<Rightarrow> world \<Rightarrow> error option \<times> world" where
  "close_docs ev [] w = (None, w)"
| "close_docs ev (doc # ds) w =
     (case doc_close ev doc of
        Some exc \<Rightarrow> (Some exc, w)
      | None \<Rightarrow> close_docs ev ds (w\<lparr>closed := closed w @ [doc]\<rparr>))"

text \<open>
  Entering and leaving \<^verbatim>\<open>with tempfile.TemporaryDirectory() as temp_dir\<close>. Leaving
  removes the directory with everything in it; when the removal raises, the directory
  stays where it is and the exception is handed on.
\<close>

definition enter_temp_dir :: "path \<Rightarrow> world \<Rightarrow> world" where
  "enter_temp_dir temp_dir w =
     w\<lparr>temp_dirs := (temp_dirs w)(temp_dir \<mapsto> Map.empty), fs_log := fs_log w @ [MakeDir temp_dir]\<rparr>"

definition exit_temp_dir :: "env \<Rightarrow> path \<Rightarrow> world \<Rightarrow> error option \<times> world" where
  "exit_temp_dir ev temp_dir w =
     (case cleanup ev temp_dir of
        Some exc \<Rightarrow> (Some exc, w)
      | None \<Rightarrow>
          (None,
           w\<lparr>temp_dirs := (temp_dirs w)(temp_dir := None), fs_log := fs_log w @ [RemoveTree temp_dir]\<rparr>))"

text \<open>
  \<^verbatim>\<open>create_merged_tiff\<close>. The \<^verbatim>\<open>with\<close> block is left on every way out of the
  \<^verbatim>\<open>try\<close>. An exception raised in the \<^verbatim>\<open>finally\<close> block replaces the one that left the
  loop, and an exception raised on leaving the \<^verbatim>\<open>with\<close> block replaces either; the
  lines after the block run only when nothing was raised.
\<close>

definition create_merged_tiff ::
  "env \<Rightarrow> PageEntry list \<Rightarrow> path \<Rightarrow> string \<Rightarrow> world \<Rightarrow> (error + unit) \<times> world" where
  "create_merged_tiff ev entries output_path compression w =
     (case mkdtemp ev of
        Inl exc \<Rightarrow> (Inl exc, w)
      | Inr temp_dir \<Rightarrow>
          (let (r, xdw_docs, w1) =
                 merge_pages ev temp_dir compression 0 entries [] [] (enter_temp_dir temp_dir w);
               (c, w2) = close_docs ev (map snd xdw_docs) w1;
               (x, w3) = exit_temp_dir ev temp_dir w2
           in case x of
                Some exc \<Rightarrow> (Inl exc, w3)
              | None \<Rightarrow>
                  (case c of
                     Some exc \<Rightarrow> (Inl exc, w3)
                   | None \<Rightarrow>
                       (case r of
                          Inl exc \<Rightarrow> (Inl exc, w3)
                        | Inr frames \<Rightarrow>
                            if frames = [] then (Inl NoPagesError, w3)
                            else (case save ev output_path frames compression of
                                    Some exc \<Rightarrow> (Inl exc, w3)
                                  | None \<Rightarrow>
                                      (Inr (),
                                       w3\<lparr>out_files := (out_files w3)(output_path \<mapsto> (frames, compression, 400, 400)),
                                          fs_log := fs_log w3 @ [WriteFile output_path]\<rparr>))))))"

section \<open>Exporting\<close>





section \<open>Notions used to state the properties\<close>

text \<open>
  The dispatch of the \<^verbatim>\<open>try\<close> block of \<^verbatim>\<open>add_files\<close> on a supported path: the page
  count it asks for and the source type it records.
\<close>

definition supported :: "path \<Rightarrow> bool" where
  "supported p = (lower (path_suffix p) \<in> set SUPPORTED_EXTENSIONS)"



text \<open>
  The dictionary \<^verbatim>\<open>opened_docs\<close> is well keyed when no path occurs twice and every
  handle is filed under the path it was opened on.
\<close>

definition keyed :: "docs \<Rightarrow> bool" where
  "keyed ds = (distinct (map fst ds) \<and> list_all (\<lambda>(p, h). handle_path h = p) ds)"

text \<open>The source paths of the entries that take the \<^verbatim>\<open>else\<close> branch of the loop.\<close>

definition docuworks_paths :: "PageEntry list \<Rightarrow> path list" where
  "docuworks_paths es = map source_path (filter (\<lambda>e. source_type e \<noteq> ''tiff'') es)"

text \<open>The two steps of the loop body, named: reading the page and normalising it.\<close>

definition normalise :: "env \<Rightarrow> string \<Rightarrow> frame \<Rightarrow> error + frame" where
  "normalise ev compression img =
     (if compression = ''group4'' then ensure_group4_mode ev img else Inr img)"

text \<open>
  The frame of one entry, read on its own: the frame of the TIFF file at the page index,
  or the raster the document exports for the page, then normalised for the compression.
\<close>

definition page_frame :: "env \<Rightarrow> string \<Rightarrow> PageEntry \<Rightarrow> error + frame" where
  "page_frame ev compression e =
     (case (if source_type e = ''tiff'' then load_tiff_page ev (source_path e) (page_index e)
            else export_image ev (source_path e) (page_index e)) of
        Inl exc \<Rightarrow> Inl exc
      | Inr img \<Rightarrow> normalise ev compression img)"

definition read_page ::
  "env \<Rightarrow> path \<Rightarrow> nat \<Rightarrow> PageEntry \<Rightarrow> docs \<Rightarrow> world \<Rightarrow> (error + frame) \<times> docs \<times> world" where
  "read_page ev temp_dir order entry xdw_docs w =
     (if source_type entry = ''tiff''
      then (load_tiff_page ev (source_path entry) (page_index entry), xdw_docs, w)
      else convert_docuworks_page ev entry order temp_dir xdw_docs w)"

text \<open>What one page of the loop leaves behind, relative to where it started.\<close>

definition page_effect ::
  "env \<Rightarrow> string \<Rightarrow> PageEntry list \<Rightarrow> docs \<Rightarrow> world \<Rightarrow> docs \<Rightarrow> world \<Rightarrow> bool" where
  "page_effect ev c es ds w ds' w' =
     (keyed ds' \<and> out_files w' = out_files w \<and> closed w' = closed w \<and>
      (\<exists>hs. ds' = ds @ hs \<and> opened w' = opened w @ map snd hs) \<and>
      set (map fst ds') \<subseteq> set (map fst ds) \<union> set (docuworks_paths es))"

section \<open>Sample data\<close>

definition tif_a :: PageEntry where
  "tif_a = \<lparr>source_path = ''/in/a.tif'', page_index = 0, source_type = ''tiff''\<rparr>"

definition tif_b :: PageEntry where
  "tif_b = \<lparr>source_path = ''/in/a.tif'', page_index = 1, source_type = ''tiff''\<rparr>"

definition xdw_c :: PageEntry where
  "xdw_c = \<lparr>source_path = ''/in/c.xdw'', page_index = 0, source_type = ''docuworks''\<rparr>"

definition xdw_d :: PageEntry where
  "xdw_d = \<lparr>source_path = ''/in/d.xdw'', page_index = 0, source_type = ''docuworks''\<rparr>"

definition gray_frame :: frame where
  "gray_frame = \<lparr>mode = ''L'', pixels = [0, 200, 90]\<rparr>"

definition bilevel_frame :: frame where
  "bilevel_frame = \<lparr>mode = ''1'', pixels = [1, 0, 1]\<rparr>"

definition rgb_frame :: frame where
  "rgb_frame = \<lparr>mode = ''RGB'', pixels = [255, 0, 0, 10, 20, 30]\<rparr>"

text \<open>
  A machine on which \<^verbatim>\<open>/in/a.tif\<close> holds two frames, \<^verbatim>\<open>/in/c.xdw\<close> two pages and
  \<^verbatim>\<open>/in/d.xdw\<close> one page, no other file can be opened, and nothing else fails.
\<close>

definition sample_env :: env where
  "sample_env =
     \<lparr>image_open = (\<lambda>p. if p = ''/in/a.tif'' then Inr [gray_frame, bilevel_frame] else Inl OpenError),
      xdw_pages = (\<lambda>p. if p = ''/in/c.xdw'' then Inr 2
                        else if p = ''/in/d.xdw'' then Inr 1 else Inl OpenError),
      xdwopen = (\<lambda>p. if p = ''/in/c.xdw'' \<or> p = ''/in/d.xdw'' then None else Some OpenError),
      export_image = (\<lambda>p i. if p = ''/in/c.xdw'' \<and> (i = 0 \<or> i = 1) then Inr rgb_frame
                             else if p = ''/in/d.xdw'' \<and> i = 0 then Inr gray_frame
                             else Inl ExportError),
      reopen = (\<lambda>p. None),
      convert = (\<lambda>m img. Inr (map (\<lambda>v. if v < 128 then 0 else 1) (pixels img))),
      doc_close = (\<lambda>h. None),
      mkdtemp = Inr ''/tmp/tmpdt'',
      cleanup = (\<lambda>p. None),
      save = (\<lambda>p fs c. None)\<rparr>"

text \<open>The same machine, except that closing the handle of \<^verbatim>\<open>/in/c.xdw\<close> raises.\<close>

definition close_fails_env :: env where
  "close_fails_env =
     sample_env\<lparr>doc_close := (\<lambda>h. if handle_path h = ''/in/c.xdw'' then Some CloseError else None)\<rparr>"

text \<open>The same machine, except that the temporary directory cannot be removed.\<close>

definition cleanup_fails_env :: env where
  "cleanup_fails_env = sample_env\<lparr>cleanup := (\<lambda>p. Some CleanupError)\<rparr>"


definition tif_missing :: PageEntry where
  "tif_missing = \<lparr>source_path = ''/in/a.tif'', page_index = 7, source_type = ''tiff''\<rparr>"

definition handle_c :: handle where
  "handle_c = \<lparr>handle_path = ''/in/c.xdw'', handle_id = 0\<rparr>"

definition handle_d :: handle where
  "handle_d = \<lparr>handle_path = ''/in/d.xdw'', handle_id = 1\<rparr>"

definition empty_world :: world where
  "empty_world = \<lparr>temp_dirs = Map.empty, out_files = Map.empty, fs_log = [], opened = [], closed = []\<rparr>"

definition no_pages :: page_list where
  "no_pages = \<lparr>entries_of = [], current_row = - 1\<rparr>"

section \<open>Reordering the page list\<close>

lemma split_adjacent:
  assumes "Suc r < length xs"
  shows "\<exists>as a b bs. xs = as @ a # b # bs \<and> length as = r"
proof -
  have "xs = take r xs @ xs ! r # drop (Suc r) xs"
    using assms by (simp add: id_take_nth_drop)
  moreover have "drop (Suc r) xs = xs ! Suc r # drop (Suc (Suc r)) xs"
    using assms by (simp add: Cons_nth_drop_Suc)
  ultimately have "xs = take r xs @ xs ! r # xs ! Suc r # drop (Suc (Suc r)) xs" by simp
  moreover have "length (take r xs) = r" using assms by simp
  ultimately show ?thesis by blast
qed

lemma remove_insert_before:
  "take (length as) (take (Suc (length as)) (as @ a # b # bs) @ drop (Suc (Suc (length as))) (as @ a # b # bs))
     @ [(as @ a # b # bs) ! Suc (length as)]
     @ drop (length as) (take (Suc (length as)) (as @ a # b # bs) @ drop (Suc (Suc (length as))) (as @ a # b # bs))
   = (as @ a # b # bs)[length as := b, Suc (length as) := a]"
  by (simp add: nth_append list_update_append)

lemma remove_insert_after:
  "take (Suc (length as)) (take (length as) (as @ a # b # bs) @ drop (Suc (length as)) (as @ a # b # bs))
     @ [(as @ a # b # bs) ! length as]
     @ drop (Suc (length as)) (take (length as) (as @ a # b # bs) @ drop (Suc (length as)) (as @ a # b # bs))
   = (as @ a # b # bs)[Suc (length as) := a, length as := b]"
  by (simp add: nth_append list_update_append)


lemma take_insert_up:
  assumes "Suc k < length xs"
  shows "take k (take (Suc k) xs @ drop (Suc (Suc k)) xs) @ [xs ! Suc k]
           @ drop k (take (Suc k) xs @ drop (Suc (Suc k)) xs)
         = xs[k := xs ! Suc k, Suc k := xs ! k]"
proof -
  from split_adjacent [OF assms] obtain as a b bs
    where xs: "xs = as @ a # b # bs" and k: "length as = k" by blast
  have "(as @ a # b # bs) ! Suc (length as) = b" "(as @ a # b # bs) ! length as = a"
    by (simp_all add: nth_append)
  with remove_insert_before [of as a b bs] show ?thesis
    unfolding xs k [symmetric] by simp
qed

lemma take_insert_down:
  assumes "Suc k < length xs"
  shows "take (Suc k) (take k xs @ drop (Suc k) xs) @ [xs ! k]
           @ drop (Suc k) (take k xs @ drop (Suc k) xs)
         = xs[Suc k := xs ! k, k := xs ! Suc k]"
proof -
  from split_adjacent [OF assms] obtain as a b bs
    where xs: "xs = as @ a # b # bs" and k: "length as = k" by blast
  have "(as @ a # b # bs) ! Suc (length as) = b" "(as @ a # b # bs) ! length as = a"
    by (simp_all add: nth_append)
  with remove_insert_after [of as a b bs] show ?thesis
    unfolding xs k [symmetric] by simp
qed


lemma nat_one_plus: "nat (1 + int k) = Suc k"
  by simp

lemma move_up_state:
  assumes "Suc k < length (entries_of pl)" "current_row pl = int (Suc k)"
  shows "move_selected_up pl =
      pl\<lparr>entries_of := (entries_of pl)[k := entries_of pl ! Suc k, Suc k := entries_of pl ! k],
         current_row := int k\<rparr>"
proof -
  have t: "takeItem (int (Suc k)) pl =
      (Some (entries_of pl ! Suc k),
       pl\<lparr>entries_of := take (Suc k) (entries_of pl) @ drop (Suc (Suc k)) (entries_of pl)\<rparr>)"
    using assms(1) by (simp add: takeItem_def count_def nat_one_plus)
  have i: "insertItem (int (Suc k) - 1) (Some (entries_of pl ! Suc k))
        (pl\<lparr>entries_of := take (Suc k) (entries_of pl) @ drop (Suc (Suc k)) (entries_of pl)\<rparr>)
      = pl\<lparr>entries_of := (entries_of pl)[k := entries_of pl ! Suc k, Suc k := entries_of pl ! k]\<rparr>"
    using assms(1) take_insert_up [OF assms(1)] by (simp add: insertItem_def count_def)
  have "move_selected_up pl = setCurrentRow (int (Suc k) - 1)
      (pl\<lparr>entries_of := (entries_of pl)[k := entries_of pl ! Suc k, Suc k := entries_of pl ! k]\<rparr>)"
    unfolding move_selected_up_def assms(2) Let_def t using i by simp
  then show ?thesis
    using assms(1) by (simp add: setCurrentRow_def count_def)
qed

lemma move_down_state:
  assumes "Suc k < length (entries_of pl)" "current_row pl = int k"
  shows "move_selected_down pl =
      pl\<lparr>entries_of := (entries_of pl)[Suc k := entries_of pl ! k, k := entries_of pl ! Suc k],
         current_row := int (Suc k)\<rparr>"
proof -
  have t: "takeItem (int k) pl =
      (Some (entries_of pl ! k),
       pl\<lparr>entries_of := take k (entries_of pl) @ drop (Suc k) (entries_of pl)\<rparr>)"
    using assms(1) by (simp add: takeItem_def count_def)
  have i: "insertItem (int k + 1) (Some (entries_of pl ! k))
        (pl\<lparr>entries_of := take k (entries_of pl) @ drop (Suc k) (entries_of pl)\<rparr>)
      = pl\<lparr>entries_of := (entries_of pl)[Suc k := entries_of pl ! k, k := entries_of pl ! Suc k]\<rparr>"
    using assms(1) take_insert_down [OF assms(1)] by (simp add: insertItem_def count_def nat_add_distrib)
  have g: "\<not> (int k < 0 \<or> count pl - 1 \<le> int k)"
    using assms(1) by (simp add: count_def)
  have "move_selected_down pl = setCurrentRow (int k + 1)
      (pl\<lparr>entries_of := (entries_of pl)[Suc k := entries_of pl ! k, k := entries_of pl ! Suc k]\<rparr>)"
    unfolding move_selected_down_def assms(2) Let_def t using g i by simp
  then show ?thesis
    using assms(1) by (simp add: setCurrentRow_def count_def)
qed

text \<open>
  C5. With a row selected: moving up at row 0 and moving down at the last row change
  nothing; any other move exchanges the selected entry with its neighbour in the
  direction of the move, leaves every other entry where it was, and the current row
  follows the moved entry.
\<close>

theorem move_selected_swaps_neighbour:
  assumes "0 \<le> current_row pl" and "current_row pl < count pl"
  shows "(current_row pl = 0 \<longrightarrow> move_selected_up pl = pl) \<and>
         (current_row pl = count pl - 1 \<longrightarrow> move_selected_down pl = pl) \<and>
         (0 < current_row pl \<longrightarrow>
            move_selected_up pl =
              pl\<lparr>entries_of := (entries_of pl)
                     [nat (current_row pl) - 1 := entries_of pl ! nat (current_row pl),
                      nat (current_row pl) := entries_of pl ! (nat (current_row pl) - 1)],
                 current_row := current_row pl - 1\<rparr>) \<and>
         (current_row pl < count pl - 1 \<longrightarrow>
            move_selected_down pl =
              pl\<lparr>entries_of := (entries_of pl)
                     [nat (current_row pl) + 1 := entries_of pl ! nat (current_row pl),
                      nat (current_row pl) := entries_of pl ! (nat (current_row pl) + 1)],
                 current_row := current_row pl + 1\<rparr>)"
proof (intro conjI impI)
  assume "current_row pl = 0"
  then show "move_selected_up pl = pl" by (simp add: move_selected_up_def)
next
  assume "current_row pl = count pl - 1"
  then show "move_selected_down pl = pl" by (simp add: move_selected_down_def)
next
  assume pos: "0 < current_row pl"
  define k where "k = nat (current_row pl) - 1"
  have row: "current_row pl = int (Suc k)" using pos by (simp add: k_def)
  have len: "Suc k < length (entries_of pl)" using assms(2) row by (simp add: count_def)
  have n: "nat (current_row pl) = Suc k" using row by simp
  show "move_selected_up pl =
          pl\<lparr>entries_of := (entries_of pl)
                 [nat (current_row pl) - 1 := entries_of pl ! nat (current_row pl),
                  nat (current_row pl) := entries_of pl ! (nat (current_row pl) - 1)],
             current_row := current_row pl - 1\<rparr>"
    unfolding n using move_up_state [OF len row] row by simp
next
  assume below: "current_row pl < count pl - 1"
  define k where "k = nat (current_row pl)"
  have row: "current_row pl = int k" using assms(1) by (simp add: k_def)
  have len: "Suc k < length (entries_of pl)" using below row by (simp add: count_def)
  show "move_selected_down pl =
          pl\<lparr>entries_of := (entries_of pl)
                 [nat (current_row pl) + 1 := entries_of pl ! nat (current_row pl),
                  nat (current_row pl) := entries_of pl ! (nat (current_row pl) + 1)],
             current_row := current_row pl + 1\<rparr>"
    unfolding k_def [symmetric] using move_down_state [OF len row] row by simp
qed

theorem move_selected_swaps_neighbour_witness:
  "move_selected_up \<lparr>entries_of = [tif_a, tif_b, xdw_c], current_row = 1\<rparr>
     = \<lparr>entries_of = [tif_b, tif_a, xdw_c], current_row = 0\<rparr> \<and>
   move_selected_down \<lparr>entries_of = [tif_a, tif_b, xdw_c], current_row = 1\<rparr>
     = \<lparr>entries_of = [tif_a, xdw_c, tif_b], current_row = 2\<rparr>"
  using move_selected_swaps_neighbour [of "\<lparr>entries_of = [tif_a, tif_b, xdw_c], current_row = 1\<rparr>"]
  by (simp add: count_def)

text \<open>
  C10. With no row selected (current row \<open>-1\<close>) moving up and moving down both leave
  the entries and the current row as they are.
\<close>

theorem move_without_selection_is_noop:
  "move_selected_up (pl\<lparr>current_row := - 1\<rparr>) = pl\<lparr>current_row := - 1\<rparr> \<and>
   move_selected_down (pl\<lparr>current_row := - 1\<rparr>) = pl\<lparr>current_row := - 1\<rparr>"
  by (simp add: move_selected_up_def move_selected_down_def)

theorem move_without_selection_is_noop_witness:
  "move_selected_up \<lparr>entries_of = [tif_a, tif_b], current_row = - 1\<rparr>
     = \<lparr>entries_of = [tif_a, tif_b], current_row = - 1\<rparr> \<and>
   move_selected_down \<lparr>entries_of = [tif_a, tif_b], current_row = - 1\<rparr>
     = \<lparr>entries_of = [tif_a, tif_b], current_row = - 1\<rparr>"
  using move_without_selection_is_noop [of "\<lparr>entries_of = [tif_a, tif_b], current_row = 0\<rparr>"]
  by simp

section \<open>Normalising a frame\<close>

text \<open>
  C6. \<^verbatim>\<open>ensure_group4_mode\<close> returns a frame of mode \<open>1\<close> as it is, and applied to its
  own result it returns that result again.
\<close>

theorem ensure_group4_mode_idempotent:
  "(mode img = ''1'' \<longrightarrow> ensure_group4_mode ev img = Inr img) \<and>
   (ensure_group4_mode ev img = Inr g \<longrightarrow> ensure_group4_mode ev g = Inr g)"
  by (auto simp: ensure_group4_mode_def image_convert_def split: sum.splits if_splits)

theorem ensure_group4_mode_idempotent_witness:
  "ensure_group4_mode sample_env bilevel_frame = Inr bilevel_frame \<and>
   ensure_group4_mode sample_env gray_frame = Inr \<lparr>mode = ''1'', pixels = [0, 1, 0]\<rparr> \<and>
   ensure_group4_mode sample_env \<lparr>mode = ''1'', pixels = [0, 1, 0]\<rparr>
     = Inr \<lparr>mode = ''1'', pixels = [0, 1, 0]\<rparr>"
  using ensure_group4_mode_idempotent [of bilevel_frame sample_env]
    ensure_group4_mode_idempotent [of gray_frame sample_env "\<lparr>mode = ''1'', pixels = [0, 1, 0]\<rparr>"]
  by (simp add: ensure_group4_mode_def image_convert_def sample_env_def gray_frame_def
        bilevel_frame_def)

section \<open>Adding files\<close>

lemma add_files_loop_skips:
  "add_files_loop ev paths rows errors = add_files_loop ev (filter supported paths) rows errors"
proof (induction paths arbitrary: rows errors)
  case Nil
  show ?case by simp
next
  case (Cons p paths)
  show ?case
  proof (cases "lower (path_suffix p) \<in> set TIFF_EXTENSIONS")
    case True
    then have "supported p" by (simp add: supported_def SUPPORTED_EXTENSIONS_def)
    with True show ?thesis
      by (cases "get_tiff_page_count ev p") (simp_all add: Cons.IH [symmetric])
  next
    case False
    show ?thesis
    proof (cases "lower (path_suffix p) \<in> set DOCUWORKS_EXTENSIONS")
      case True
      then have "supported p" by (simp add: supported_def SUPPORTED_EXTENSIONS_def)
      with True False show ?thesis
        by (cases "get_docuworks_page_count ev p") (simp_all add: Cons.IH [symmetric])
    next
      case nd: False
      with False have "\<not> supported p" by (simp add: supported_def SUPPORTED_EXTENSIONS_def)
      with nd False show ?thesis by (simp add: Cons.IH [symmetric])
    qed
  qed
qed


lemma notes_txt_unsupported: "\<not> supported ''/in/notes.txt''"
  by (simp add: supported_def SUPPORTED_EXTENSIONS_def TIFF_EXTENSIONS_def
        DOCUWORKS_EXTENSIONS_def lower_def path_suffix_def path_name_def lower_char_def)

lemma sample_paths_supported:
  "supported ''/in/a.tif''" "supported ''/in/zz.tif''" "supported ''/in/c.xdw''"
  by (simp_all add: supported_def SUPPORTED_EXTENSIONS_def TIFF_EXTENSIONS_def
        DOCUWORKS_EXTENSIONS_def lower_def path_suffix_def path_name_def lower_char_def)

text \<open>
  C3, as the claim states it, fails: a path with an unrecognised extension is reported
  as an error. \<^verbatim>\<open>add_files\<close> on \<^verbatim>\<open>/in/notes.txt\<close> alone shows no warning at all.
\<close>

theorem add_files_unrecognised_counterexample:
  "\<not> supported ''/in/notes.txt'' \<and>
   add_files sample_env [''/in/notes.txt''] no_pages = (no_pages, None)"
  using notes_txt_unsupported
  by (simp add: add_files_def supported_def SUPPORTED_EXTENSIONS_def)

text \<open>
  C3, amended. \<^verbatim>\<open>add_files\<close> skips a path with an unrecognised extension silently: the
  list and the warning are those of the batch without such paths, so the path adds no
  page and no error line, and the other paths are processed as usual.
\<close>

theorem add_files_skips_unrecognised:
  "add_files ev paths pl = add_files ev (filter supported paths) pl"
  by (simp add: add_files_def add_files_loop_skips [of ev paths])

theorem add_files_skips_unrecognised_witness:
  "add_files sample_env [''/in/notes.txt'', ''/in/a.tif''] no_pages
     = add_files sample_env [''/in/a.tif''] no_pages"
  using add_files_skips_unrecognised [of sample_env "[''/in/notes.txt'', ''/in/a.tif'']" no_pages]
    notes_txt_unsupported sample_paths_supported(1)
  by simp



section \<open>The merge loop\<close>

lemma page_effect_refl: "keyed ds \<Longrightarrow> page_effect ev c es ds w ds w"
  by (simp add: page_effect_def)

lemma page_effect_trans:
  assumes "page_effect ev c [e] ds w d1 w1" "page_effect ev c es d1 w1 ds' w'"
  shows "page_effect ev c (e # es) ds w ds' w'"
proof -
  from assms(1) obtain hs1 where h1: "d1 = ds @ hs1" "opened w1 = opened w @ map snd hs1"
    unfolding page_effect_def by blast
  from assms(2) obtain hs2 where h2: "ds' = d1 @ hs2" "opened w' = opened w1 @ map snd hs2"
    unfolding page_effect_def by blast
  have "ds' = ds @ (hs1 @ hs2)" "opened w' = opened w @ map snd (hs1 @ hs2)"
    using h1 h2 by simp_all
  then have ex: "\<exists>hs. ds' = ds @ hs \<and> opened w' = opened w @ map snd hs" by blast
  have s1: "set (map fst d1) \<subseteq> set (map fst ds) \<union> set (docuworks_paths [e])"
    using assms(1) unfolding page_effect_def by blast
  have s2: "set (map fst ds') \<subseteq> set (map fst d1) \<union> set (docuworks_paths es)"
    using assms(2) unfolding page_effect_def by blast
  have dc: "set (docuworks_paths (e # es)) = set (docuworks_paths [e]) \<union> set (docuworks_paths es)"
    by (simp add: docuworks_paths_def)
  have sub: "set (map fst ds') \<subseteq> set (map fst ds) \<union> set (docuworks_paths (e # es))"
    using s1 s2 unfolding dc by blast
  have "keyed ds'" "out_files w' = out_files w" "closed w' = closed w"
    using assms unfolding page_effect_def by simp_all
  with ex sub show ?thesis unfolding page_effect_def by simp
qed

lemma page_effect_widen:
  assumes "page_effect ev c [e] ds w ds' w'"
  shows "page_effect ev c (e # es) ds w ds' w'"
proof -
  have "set (docuworks_paths [e]) \<subseteq> set (docuworks_paths (e # es))"
    by (auto simp: docuworks_paths_def)
  with assms show ?thesis unfolding page_effect_def by blast
qed

lemma export_page_effect:
  assumes "export_page ev doc e order td w = (r, w')"
  shows "out_files w' = out_files w \<and> closed w' = closed w \<and> opened w' = opened w \<and>
         (\<forall>f. r = Inr f \<longrightarrow> export_image ev (handle_path doc) (page_index e) = Inr f)"
  using assms
  by (auto simp: export_page_def Let_def split: sum.splits option.splits)

lemma keyed_lookup:
  assumes "keyed ds" "map_of ds p = Some h"
  shows "handle_path h = p" "p \<in> set (map fst ds)"
proof -
  from assms(2) have m: "(p, h) \<in> set ds" by (rule map_of_SomeD)
  with assms(1) show "handle_path h = p" by (auto simp: keyed_def list_all_iff)
  from m show "p \<in> set (map fst ds)" by force
qed

lemma keyed_snoc:
  assumes "keyed ds" "map_of ds p = None" "handle_path h = p"
  shows "keyed (ds @ [(p, h)])"
proof -
  from assms(2) have "p \<notin> set (map fst ds)" by (simp add: map_of_eq_None_iff)
  with assms(1,3) show ?thesis by (simp add: keyed_def)
qed

lemma docuworks_paths_single:
  "source_type e \<noteq> ''tiff'' \<Longrightarrow> docuworks_paths [e] = [source_path e]"
  "source_type e = ''tiff'' \<Longrightarrow> docuworks_paths [e] = []"
  by (simp_all add: docuworks_paths_def)

lemma convert_docuworks_page_effect:
  assumes c: "convert_docuworks_page ev e order td ds w = (r, ds', w')" and k: "keyed ds"
    and nt: "source_type e \<noteq> ''tiff''"
  shows "page_effect ev cmp [e] ds w ds' w' \<and>
         (\<forall>f. r = Inr f \<longrightarrow> export_image ev (source_path e) (page_index e) = Inr f \<and>
                source_path e \<in> set (map fst ds'))"
proof (cases "map_of ds (source_path e)")
  case (Some doc)
  obtain r1 w1 where x: "export_page ev doc e order td w = (r1, w1)" by force
  from c Some x have eq: "r = r1" "ds' = ds" "w' = w1"
    by (simp_all add: convert_docuworks_page_def)
  note kl = keyed_lookup [OF k Some]
  note xe = export_page_effect [OF x]
  have "page_effect ev cmp [e] ds w ds w1"
    using xe k by (simp add: page_effect_def)
  moreover have "\<forall>f. r1 = Inr f \<longrightarrow> export_image ev (source_path e) (page_index e) = Inr f \<and>
                source_path e \<in> set (map fst ds)"
    using xe kl by simp
  ultimately show ?thesis unfolding eq by simp
next
  case None
  show ?thesis
  proof (cases "xdwopen ev (source_path e)")
    case (Some exc)
    with c None have "r = Inl exc" "ds' = ds" "w' = w"
      by (simp_all add: convert_docuworks_page_def)
    with k show ?thesis by (simp add: page_effect_refl)
  next
    case no: None
    define doc where "doc = \<lparr>handle_path = source_path e, handle_id = length (opened w)\<rparr>"
    obtain r1 w1
      where x: "export_page ev doc e order td (w\<lparr>opened := opened w @ [doc]\<rparr>) = (r1, w1)"
      by force
    from c None no x have eq: "r = r1" "ds' = ds @ [(source_path e, doc)]" "w' = w1"
      by (simp_all add: convert_docuworks_page_def Let_def doc_def)
    have hp: "handle_path doc = source_path e" by (simp add: doc_def)
    note ks = keyed_snoc [OF k None hp]
    note xe = export_page_effect [OF x]
    have "page_effect ev cmp [e] ds w (ds @ [(source_path e, doc)]) w1"
      using xe ks nt by (simp add: page_effect_def docuworks_paths_single)
    moreover have "\<forall>f. r1 = Inr f \<longrightarrow> export_image ev (source_path e) (page_index e) = Inr f \<and>
                source_path e \<in> set (map fst (ds @ [(source_path e, doc)]))"
      using xe hp by simp
    ultimately show ?thesis unfolding eq by simp
  qed
qed

lemma read_page_effect:
  assumes c: "read_page ev td order e ds w = (r, ds', w')" and k: "keyed ds"
  shows "page_effect ev cmp [e] ds w ds' w' \<and>
         (\<forall>f. r = Inr f \<longrightarrow> page_frame ev cmp e = normalise ev cmp f \<and>
                set (docuworks_paths [e]) \<subseteq> set (map fst ds'))"
proof (cases "source_type e = ''tiff''")
  case True
  with c have "r = load_tiff_page ev (source_path e) (page_index e)" "ds' = ds" "w' = w"
    by (simp_all add: read_page_def)
  with k True show ?thesis
    by (simp add: page_frame_def docuworks_paths_single page_effect_refl)
next
  case False
  with c have cv: "convert_docuworks_page ev e order td ds w = (r, ds', w')"
    by (simp add: read_page_def)
  from convert_docuworks_page_effect [OF cv k False, of cmp] False show ?thesis
    by (simp add: page_frame_def docuworks_paths_single)
qed


lemma merge_pages_Cons:
  "merge_pages ev td c order (e # es) frames ds w =
     (case read_page ev td order e ds w of
        (Inl exc, d1, w1) \<Rightarrow> (Inl exc, d1, w1)
      | (Inr img, d1, w1) \<Rightarrow>
          (case normalise ev c img of
             Inl exc \<Rightarrow> (Inl exc, d1, w1)
           | Inr img1 \<Rightarrow> merge_pages ev td c (Suc order) es (frames @ [img1]) d1 w1))"
  by (simp add: read_page_def normalise_def split: prod.splits sum.splits)

lemma merge_pages_effect:
  assumes "merge_pages ev td c order es frames ds w = (r, ds', w')" and "keyed ds"
  shows "page_effect ev c es ds w ds' w' \<and>
         (\<forall>fs. r = Inr fs \<longrightarrow>
            (\<exists>fs'. fs = frames @ fs' \<and> map (page_frame ev c) es = map Inr fs') \<and>
            set (docuworks_paths es) \<subseteq> set (map fst ds'))"
  using assms
proof (induction es arbitrary: order frames ds w)
  case Nil
  then show ?case by (auto simp: page_effect_refl docuworks_paths_def)
next
  case (Cons e es)
  obtain r1 d1 w1 where rp: "read_page ev td order e ds w = (r1, d1, w1)"
    by (cases "read_page ev td order e ds w") auto
  from read_page_effect [OF rp Cons.prems(2), of c]
  have pe1: "page_effect ev c [e] ds w d1 w1"
    and fr1: "\<forall>f. r1 = Inr f \<longrightarrow> page_frame ev c e = normalise ev c f \<and>
                set (docuworks_paths [e]) \<subseteq> set (map fst d1)"
    by simp_all
  have mp: "(case (r1, d1, w1) of
        (Inl exc, d1, w1) \<Rightarrow> (Inl exc, d1, w1)
      | (Inr img, d1, w1) \<Rightarrow>
          (case normalise ev c img of
             Inl exc \<Rightarrow> (Inl exc, d1, w1)
           | Inr img1 \<Rightarrow> merge_pages ev td c (Suc order) es (frames @ [img1]) d1 w1))
      = (r, ds', w')"
    using Cons.prems(1) unfolding merge_pages_Cons rp .
  show ?case
  proof (cases r1)
    case (Inl exc)
    with mp have "r = Inl exc" "ds' = d1" "w' = w1" by simp_all
    with page_effect_widen [OF pe1] show ?thesis by simp
  next
    case (Inr img)
    with fr1 have pf: "page_frame ev c e = normalise ev c img"
      and dp: "set (docuworks_paths [e]) \<subseteq> set (map fst d1)" by simp_all
    show ?thesis
    proof (cases "normalise ev c img")
      case (Inl exc)
      with mp Inr have "r = Inl exc" "ds' = d1" "w' = w1" by simp_all
      with page_effect_widen [OF pe1] show ?thesis by simp
    next
      case img1: (Inr img1)
      with mp Inr
      have rec: "merge_pages ev td c (Suc order) es (frames @ [img1]) d1 w1 = (r, ds', w')"
        by simp
      have k1: "keyed d1" using pe1 by (simp add: page_effect_def)
      from Cons.IH [OF rec k1]
      have pe2: "page_effect ev c es d1 w1 ds' w'"
        and fr2: "\<forall>fs. r = Inr fs \<longrightarrow>
            (\<exists>fs'. fs = (frames @ [img1]) @ fs' \<and> map (page_frame ev c) es = map Inr fs') \<and>
            set (docuworks_paths es) \<subseteq> set (map fst ds')"
        by simp_all
      have pe: "page_effect ev c (e # es) ds w ds' w'"
        by (rule page_effect_trans [OF pe1 pe2])
      from pe2 obtain hs2 where "ds' = d1 @ hs2" unfolding page_effect_def by blast
      then have d1sub: "set (map fst d1) \<subseteq> set (map fst ds')" by auto
      have dc: "set (docuworks_paths (e # es)) = set (docuworks_paths [e]) \<union> set (docuworks_paths es)"
        by (simp add: docuworks_paths_def)
      have fin: "\<forall>fs. r = Inr fs \<longrightarrow>
            (\<exists>fs'. fs = frames @ fs' \<and> map (page_frame ev c) (e # es) = map Inr fs') \<and>
            set (docuworks_paths (e # es)) \<subseteq> set (map fst ds')"
      proof (intro allI impI)
        fix fs assume rfs: "r = Inr fs"
        with fr2 obtain fs' where fs': "fs = (frames @ [img1]) @ fs'"
          "map (page_frame ev c) es = map Inr fs'"
          and dps: "set (docuworks_paths es) \<subseteq> set (map fst ds')" by blast
        have a: "fs = frames @ (img1 # fs')" using fs'(1) by simp
        have b: "map (page_frame ev c) (e # es) = map Inr (img1 # fs')"
          using fs'(2) pf img1 by simp
        have c: "set (docuworks_paths (e # es)) \<subseteq> set (map fst ds')"
          unfolding dc using dps dp d1sub by blast
        from a b have "\<exists>fs'. fs = frames @ fs' \<and> map (page_frame ev c) (e # es) = map Inr fs'"
          by blast
        then show "(\<exists>fs'. fs = frames @ fs' \<and> map (page_frame ev c) (e # es) = map Inr fs') \<and>
            set (docuworks_paths (e # es)) \<subseteq> set (map fst ds')" using c by simp
      qed
      from pe fin show ?thesis by simp
    qed
  qed
qed

lemma close_docs_effect:
  "close_docs ev hs w =
     (case find (\<lambda>h. doc_close ev h \<noteq> None) hs of None \<Rightarrow> None | Some h \<Rightarrow> doc_close ev h,
      w\<lparr>closed := closed w @ takeWhile (\<lambda>h. doc_close ev h = None) hs\<rparr>)"
proof (induction hs arbitrary: w)
  case Nil
  show ?case by simp
next
  case (Cons h hs)
  show ?case
  proof (cases "doc_close ev h")
    case None
    then show ?thesis by (simp add: Cons.IH)
  next
    case (Some exc)
    then show ?thesis by simp
  qed
qed

section \<open>The merge as a whole\<close>

lemma keyed_Nil: "keyed []"
  by (simp add: keyed_def)

lemma keyed_distinct_handles:
  assumes "keyed ds"
  shows "distinct (map snd ds)" "map handle_path (map snd ds) = map fst ds"
proof -
  from assms have "map (handle_path \<circ> snd) ds = map fst ds"
    by (auto simp: keyed_def list_all_iff)
  then show p: "map handle_path (map snd ds) = map fst ds" by simp
  from assms have "distinct (map handle_path (map snd ds))" unfolding p by (simp add: keyed_def)
  then have "distinct (map handle_path (map snd ds))" .
  then show "distinct (map snd ds)" by (rule distinct_map [THEN iffD1, THEN conjunct1])
qed

text \<open>A directory that exists when the loop starts exists when the loop is left.\<close>

lemma export_page_keeps_dir:
  assumes "export_page ev doc e order td w = (r, w')" and "temp_dirs w p \<noteq> None"
  shows "temp_dirs w' p \<noteq> None"
  using assms
  by (auto simp: export_page_def Let_def split: sum.splits option.splits if_splits)

lemma read_page_keeps_dir:
  assumes rp: "read_page ev td order e ds w = (r, ds', w')" and d: "temp_dirs w p \<noteq> None"
  shows "temp_dirs w' p \<noteq> None"
proof (cases "source_type e = ''tiff''")
  case True
  with rp have "w' = w" by (simp add: read_page_def)
  with d show ?thesis by simp
next
  case False
  with rp have cv: "convert_docuworks_page ev e order td ds w = (r, ds', w')"
    by (simp add: read_page_def)
  show ?thesis
  proof (cases "map_of ds (source_path e)")
    case (Some doc)
    obtain r1 w1 where x: "export_page ev doc e order td w = (r1, w1)" by force
    from cv Some x have "w' = w1" by (simp add: convert_docuworks_page_def)
    with export_page_keeps_dir [OF x d] show ?thesis by simp
  next
    case None
    show ?thesis
    proof (cases "xdwopen ev (source_path e)")
      case (Some exc)
      with cv None have "w' = w" by (simp add: convert_docuworks_page_def)
      with d show ?thesis by simp
    next
      case no: None
      define doc where "doc = \<lparr>handle_path = source_path e, handle_id = length (opened w)\<rparr>"
      obtain r1 w1
        where x: "export_page ev doc e order td (w\<lparr>opened := opened w @ [doc]\<rparr>) = (r1, w1)"
        by force
      from cv None no x have eq: "w' = w1"
        by (simp add: convert_docuworks_page_def Let_def doc_def)
      from d have d0: "temp_dirs (w\<lparr>opened := opened w @ [doc]\<rparr>) p \<noteq> None" by simp
      from export_page_keeps_dir [OF x d0] show ?thesis unfolding eq .
    qed
  qed
qed

lemma merge_pages_keeps_dir:
  assumes "merge_pages ev td c order es frames ds w = (r, ds', w')" and "temp_dirs w p \<noteq> None"
  shows "temp_dirs w' p \<noteq> None"
  using assms
proof (induction es arbitrary: order frames ds w)
  case Nil
  then show ?case by simp
next
  case (Cons e es)
  obtain r1 d1 w1 where rp: "read_page ev td order e ds w = (r1, d1, w1)"
    by (cases "read_page ev td order e ds w") auto
  note k1 = read_page_keeps_dir [OF rp Cons.prems(2)]
  have mp: "(case (r1, d1, w1) of
        (Inl exc, d1, w1) \<Rightarrow> (Inl exc, d1, w1)
      | (Inr img, d1, w1) \<Rightarrow>
          (case normalise ev c img of
             Inl exc \<Rightarrow> (Inl exc, d1, w1)
           | Inr img1 \<Rightarrow> merge_pages ev td c (Suc order) es (frames @ [img1]) d1 w1))
      = (r, ds', w')"
    using Cons.prems(1) unfolding merge_pages_Cons rp .
  show ?case
  proof (cases r1)
    case (Inl exc)
    with mp have "w' = w1" by simp
    with k1 show ?thesis by simp
  next
    case (Inr img)
    show ?thesis
    proof (cases "normalise ev c img")
      case (Inl exc)
      with mp Inr have "w' = w1" by simp
      with k1 show ?thesis by simp
    next
      case img1: (Inr img1)
      with mp Inr
      have rec: "merge_pages ev td c (Suc order) es (frames @ [img1]) d1 w1 = (r, ds', w')"
        by simp
      from Cons.IH [OF rec k1] show ?thesis .
    qed
  qed
qed

lemma exit_temp_dir_effect:
  "exit_temp_dir ev td w =
     (cleanup ev td,
      if cleanup ev td = None
      then w\<lparr>temp_dirs := (temp_dirs w)(td := None), fs_log := fs_log w @ [RemoveTree td]\<rparr>
      else w)"
  by (simp add: exit_temp_dir_def split: option.splits)

lemma create_merged_tiff_steps:
  assumes "mkdtemp ev = Inr td"
    and "merge_pages ev td c 0 es [] [] (enter_temp_dir td w) = (lr, ds, w1)"
    and "close_docs ev (map snd ds) w1 = (cr, w2)"
    and "exit_temp_dir ev td w2 = (xr, w3)"
  shows "create_merged_tiff ev es out c w =
     (case xr of
        Some exc \<Rightarrow> (Inl exc, w3)
      | None \<Rightarrow>
          (case cr of
             Some exc \<Rightarrow> (Inl exc, w3)
           | None \<Rightarrow>
               (case lr of
                  Inl exc \<Rightarrow> (Inl exc, w3)
                | Inr frames \<Rightarrow>
                    if frames = [] then (Inl NoPagesError, w3)
                    else (case save ev out frames c of
                            Some exc \<Rightarrow> (Inl exc, w3)
                          | None \<Rightarrow>
                              (Inr (),
                               w3\<lparr>out_files := (out_files w3)(out \<mapsto> (frames, c, 400, 400)),
                                  fs_log := fs_log w3 @ [WriteFile out]\<rparr>)))))"
  using assms by (simp add: create_merged_tiff_def Let_def)

lemma close_docs_all:
  assumes "list_all (\<lambda>h. doc_close ev h = None) hs"
  shows "close_docs ev hs w = (None, w\<lparr>closed := closed w @ hs\<rparr>)"
proof -
  from assms have "find (\<lambda>h. doc_close ev h \<noteq> None) hs = None"
    by (simp add: find_None_iff list_all_iff)
  moreover from assms have "takeWhile (\<lambda>h. doc_close ev h = None) hs = hs"
    by (simp add: takeWhile_eq_all_conv list_all_iff)
  ultimately show ?thesis by (simp add: close_docs_effect)
qed

lemma loop_handles:
  assumes "merge_pages ev td c 0 es [] [] (enter_temp_dir td w) = (lr, ds, w1)"
  shows "keyed ds" "out_files w1 = out_files w" "closed w1 = closed w"
    "opened w1 = opened w @ map snd ds"
    "set (map fst ds) \<subseteq> set (docuworks_paths es)"
    "temp_dirs w1 td \<noteq> None"
proof -
  from merge_pages_effect [OF assms keyed_Nil]
  have pe: "page_effect ev c es [] (enter_temp_dir td w) ds w1" by simp
  then show "keyed ds" "out_files w1 = out_files w" "closed w1 = closed w"
    "set (map fst ds) \<subseteq> set (docuworks_paths es)"
    by (simp_all add: page_effect_def enter_temp_dir_def)
  from pe show "opened w1 = opened w @ map snd ds"
    by (auto simp: page_effect_def enter_temp_dir_def)
  have "temp_dirs (enter_temp_dir td w) td \<noteq> None" by (simp add: enter_temp_dir_def)
  with assms show "temp_dirs w1 td \<noteq> None" by (rule merge_pages_keeps_dir)
qed

lemma merged_world:
  assumes td: "mkdtemp ev = Inr td"
    and loop: "merge_pages ev td c 0 es [] [] (enter_temp_dir td w) = (lr, ds, w1)"
    and res: "create_merged_tiff ev es out c w = (r, w')"
  shows "(temp_dirs w' td = None) = (cleanup ev td = None)"
    and "opened w' = opened w @ map snd ds"
    and "closed w' = closed w @ takeWhile (\<lambda>h. doc_close ev h = None) (map snd ds)"
    and "isl r \<Longrightarrow> out_files w' = out_files w"
proof -
  define w2 where "w2 = w1\<lparr>closed := closed w1 @ takeWhile (\<lambda>h. doc_close ev h = None) (map snd ds)\<rparr>"
  define cr where "cr = (case find (\<lambda>h. doc_close ev h \<noteq> None) (map snd ds) of
       None \<Rightarrow> None | Some h \<Rightarrow> doc_close ev h)"
  have cd: "close_docs ev (map snd ds) w1 = (cr, w2)"
    by (simp add: close_docs_effect cr_def w2_def)
  define w3 where "w3 = (if cleanup ev td = None
      then w2\<lparr>temp_dirs := (temp_dirs w2)(td := None), fs_log := fs_log w2 @ [RemoveTree td]\<rparr>
      else w2)"
  have ex: "exit_temp_dir ev td w2 = (cleanup ev td, w3)"
    by (simp add: exit_temp_dir_effect w3_def)
  note st = create_merged_tiff_steps [OF td loop cd ex, of out]
  note lh = loop_handles [OF loop]
  have w3: "(temp_dirs w3 td = None) = (cleanup ev td = None)"
    "opened w3 = opened w @ map snd ds"
    "closed w3 = closed w @ takeWhile (\<lambda>h. doc_close ev h = None) (map snd ds)"
    "out_files w3 = out_files w"
    using lh by (auto simp: w3_def w2_def)
  from st res have cases: "w' = w3 \<or>
      (\<not> isl r \<and> (\<exists>frames. w' = w3\<lparr>out_files := (out_files w3)(out \<mapsto> (frames, c, 400, 400)),
                          fs_log := fs_log w3 @ [WriteFile out]\<rparr>))"
    by (auto split: option.splits sum.splits if_splits)
  from cases w3 show "(temp_dirs w' td = None) = (cleanup ev td = None)" by auto
  from cases w3 show "opened w' = opened w @ map snd ds" by auto
  from cases w3
  show "closed w' = closed w @ takeWhile (\<lambda>h. doc_close ev h = None) (map snd ds)" by auto
  from cases w3 show "isl r \<Longrightarrow> out_files w' = out_files w" by auto
qed

lemma merged_result:
  assumes td: "mkdtemp ev = Inr td"
    and loop: "merge_pages ev td c 0 es [] [] (enter_temp_dir td w) = (lr, ds, w1)"
    and res: "create_merged_tiff ev es out c w = (r, w')"
  shows "list_all (\<lambda>h. doc_close ev h = None) (map snd ds) \<Longrightarrow> cleanup ev td = None \<Longrightarrow>
           r = (case lr of
                  Inl exc \<Rightarrow> Inl exc
                | Inr frames \<Rightarrow>
                    if frames = [] then Inl NoPagesError
                    else (case save ev out frames c of Some exc \<Rightarrow> Inl exc | None \<Rightarrow> Inr ()))"
    and "find (\<lambda>h. doc_close ev h \<noteq> None) (map snd ds) = Some h \<Longrightarrow> cleanup ev td = None \<Longrightarrow>
           Inl (the (doc_close ev h)) = r"
    and "cleanup ev td = Some x \<Longrightarrow> r = Inl x"
proof -
  obtain cr w2 where cd: "close_docs ev (map snd ds) w1 = (cr, w2)" by force
  obtain w3 where ex: "exit_temp_dir ev td w2 = (cleanup ev td, w3)"
    by (simp add: exit_temp_dir_effect)
  note st = create_merged_tiff_steps [OF td loop cd ex, of out]
  {
    assume ok: "list_all (\<lambda>h. doc_close ev h = None) (map snd ds)" and cl: "cleanup ev td = None"
    from close_docs_all [OF ok, of w1] cd have "cr = None" by simp
    with st res cl
    show "r = (case lr of
                  Inl exc \<Rightarrow> Inl exc
                | Inr frames \<Rightarrow>
                    if frames = [] then Inl NoPagesError
                    else (case save ev out frames c of Some exc \<Rightarrow> Inl exc | None \<Rightarrow> Inr ()))"
      by (auto split: sum.splits option.splits if_splits)
  }
  {
    assume f: "find (\<lambda>h. doc_close ev h \<noteq> None) (map snd ds) = Some h" and cl: "cleanup ev td = None"
    then have "doc_close ev h \<noteq> None" by (auto simp: find_Some_iff)
    then obtain exc where exc: "doc_close ev h = Some exc" by auto
    have "close_docs ev (map snd ds) w1 =
        (Some exc, w1\<lparr>closed := closed w1 @ takeWhile (\<lambda>h. doc_close ev h = None) (map snd ds)\<rparr>)"
      by (simp only: close_docs_effect f option.case exc)
    with cd have "cr = Some exc" by simp
    with st res exc cl
    show "Inl (the (doc_close ev h)) = r" by simp
  }
  {
    assume "cleanup ev td = Some x"
    with st res show "r = Inl x" by simp
  }
qed

text \<open>
  C1, amended. When the loop of \<^verbatim>\<open>create_merged_tiff\<close> leaves with an exception, the
  call raises and writes no output file. The handles opened so far are closed in the
  order they were opened, up to the first whose \<^verbatim>\<open>close\<close> raises, so when no
  \<^verbatim>\<open>close\<close> raises every one of them is closed. The temporary directory is gone
  afterwards exactly when its removal does not raise. When neither a \<^verbatim>\<open>close\<close> nor the
  removal raises, the caller receives the loop's exception; when the removal raises,
  the caller receives the exception of the removal and the directory is still there.
\<close>

theorem failed_merge_cleans_up:
  assumes "mkdtemp ev = Inr td"
    and "merge_pages ev td c 0 es [] [] (enter_temp_dir td w) = (Inl exc, ds, w1)"
    and "create_merged_tiff ev es out c w = (r, w')"
  shows "isl r \<and> out_files w' = out_files w \<and>
         (temp_dirs w' td = None) = (cleanup ev td = None) \<and>
         opened w' = opened w @ map snd ds \<and>
         closed w' = closed w @ takeWhile (\<lambda>h. doc_close ev h = None) (map snd ds) \<and>
         (list_all (\<lambda>h. doc_close ev h = None) (map snd ds) \<longrightarrow>
            closed w' = closed w @ map snd ds) \<and>
         (list_all (\<lambda>h. doc_close ev h = None) (map snd ds) \<and> cleanup ev td = None \<longrightarrow>
            r = Inl exc \<and> temp_dirs w' td = None) \<and>
         (\<forall>x. cleanup ev td = Some x \<longrightarrow> r = Inl x \<and> temp_dirs w' td \<noteq> None)"
proof -
  note mw = merged_world [OF assms] and mr = merged_result [OF assms]
  have r: "isl r"
  proof (cases "cleanup ev td")
    case (Some x)
    from mr(3) [OF this] show ?thesis by simp
  next
    case cl: None
    show ?thesis
    proof (cases "find (\<lambda>h. doc_close ev h \<noteq> None) (map snd ds)")
      case None
      then have "list_all (\<lambda>h. doc_close ev h = None) (map snd ds)"
        by (simp add: find_None_iff list_all_iff)
      from mr(1) [OF this cl] show ?thesis by simp
    next
      case (Some h)
      from mr(2) [OF this cl] show ?thesis by auto
    qed
  qed
  have all: "list_all (\<lambda>h. doc_close ev h = None) (map snd ds) \<longrightarrow>
            closed w' = closed w @ map snd ds"
  proof
    assume ok: "list_all (\<lambda>h. doc_close ev h = None) (map snd ds)"
    then have "takeWhile (\<lambda>h. doc_close ev h = None) (map snd ds) = map snd ds"
      by (simp add: list_all_iff)
    with mw(3) show "closed w' = closed w @ map snd ds" by simp
  qed
  have good: "list_all (\<lambda>h. doc_close ev h = None) (map snd ds) \<and> cleanup ev td = None \<longrightarrow>
            r = Inl exc \<and> temp_dirs w' td = None"
  proof
    assume a: "list_all (\<lambda>h. doc_close ev h = None) (map snd ds) \<and> cleanup ev td = None"
    then have ok: "list_all (\<lambda>h. doc_close ev h = None) (map snd ds)"
      and cl: "cleanup ev td = None" by simp_all
    from mr(1) [OF ok cl] mw(1) cl show "r = Inl exc \<and> temp_dirs w' td = None" by simp
  qed
  have bad: "\<forall>x. cleanup ev td = Some x \<longrightarrow> r = Inl x \<and> temp_dirs w' td \<noteq> None"
  proof (intro allI impI)
    fix x assume x: "cleanup ev td = Some x"
    from mr(3) [OF x] mw(1) x show "r = Inl x \<and> temp_dirs w' td \<noteq> None" by simp
  qed
  from r mw(1,2,3) mw(4) [OF r] all good bad show ?thesis by simp
qed

text \<open>
  C2, amended. Whether the loop succeeded or failed, the handles opened during the
  merge are distinct and are closed in the order they were opened, each at most once,
  up to the first whose \<^verbatim>\<open>close\<close> raises; when no \<^verbatim>\<open>close\<close> raises each handle is
  closed exactly once. A \<^verbatim>\<open>close\<close> that raises is not swallowed: the handle is not
  recorded as closed, and its exception is what the caller receives unless the removal
  of the temporary directory raises as well. When neither a \<^verbatim>\<open>close\<close> nor the removal
  raises, the result of the merge is the one the loop leads to; an exception of the
  removal replaces every other result.
\<close>

theorem merge_exit_closes_in_order:
  assumes "mkdtemp ev = Inr td"
    and "merge_pages ev td c 0 es [] [] (enter_temp_dir td w) = (lr, ds, w1)"
    and "create_merged_tiff ev es out c w = (r, w')"
  shows "opened w' = opened w @ map snd ds \<and> distinct (map snd ds) \<and>
         closed w' = closed w @ takeWhile (\<lambda>h. doc_close ev h = None) (map snd ds) \<and>
         (list_all (\<lambda>h. doc_close ev h = None) (map snd ds) \<longrightarrow>
            closed w' = closed w @ map snd ds) \<and>
         (list_all (\<lambda>h. doc_close ev h = None) (map snd ds) \<and> cleanup ev td = None \<longrightarrow>
            r = (case lr of
                   Inl exc \<Rightarrow> Inl exc
                 | Inr frames \<Rightarrow>
                     if frames = [] then Inl NoPagesError
                     else (case save ev out frames c of Some exc \<Rightarrow> Inl exc | None \<Rightarrow> Inr ()))) \<and>
         (\<forall>h. find (\<lambda>h. doc_close ev h \<noteq> None) (map snd ds) = Some h \<longrightarrow>
            h \<notin> set (takeWhile (\<lambda>h. doc_close ev h = None) (map snd ds)) \<and>
            (cleanup ev td = None \<longrightarrow> r = Inl (the (doc_close ev h)))) \<and>
         (\<forall>x. cleanup ev td = Some x \<longrightarrow> r = Inl x)"
proof -
  note mw = merged_world [OF assms] and mr = merged_result [OF assms]
  note lh = loop_handles [OF assms(2)]
  have d: "distinct (map snd ds)" by (rule keyed_distinct_handles(1) [OF lh(1)])
  have all: "list_all (\<lambda>h. doc_close ev h = None) (map snd ds) \<longrightarrow>
            closed w' = closed w @ map snd ds"
  proof
    assume ok: "list_all (\<lambda>h. doc_close ev h = None) (map snd ds)"
    then have "takeWhile (\<lambda>h. doc_close ev h = None) (map snd ds) = map snd ds"
      by (simp add: list_all_iff)
    with mw(3) show "closed w' = closed w @ map snd ds" by simp
  qed
  have good: "list_all (\<lambda>h. doc_close ev h = None) (map snd ds) \<and> cleanup ev td = None \<longrightarrow>
            r = (case lr of
                   Inl exc \<Rightarrow> Inl exc
                 | Inr frames \<Rightarrow>
                     if frames = [] then Inl NoPagesError
                     else (case save ev out frames c of Some exc \<Rightarrow> Inl exc | None \<Rightarrow> Inr ()))"
  proof
    assume a: "list_all (\<lambda>h. doc_close ev h = None) (map snd ds) \<and> cleanup ev td = None"
    then have ok: "list_all (\<lambda>h. doc_close ev h = None) (map snd ds)"
      and cl: "cleanup ev td = None" by simp_all
    from mr(1) [OF ok cl]
    show "r = (case lr of
                   Inl exc \<Rightarrow> Inl exc
                 | Inr frames \<Rightarrow>
                     if frames = [] then Inl NoPagesError
                     else (case save ev out frames c of Some exc \<Rightarrow> Inl exc | None \<Rightarrow> Inr ()))" .
  qed
  have bad: "\<forall>h. find (\<lambda>h. doc_close ev h \<noteq> None) (map snd ds) = Some h \<longrightarrow>
            h \<notin> set (takeWhile (\<lambda>h. doc_close ev h = None) (map snd ds)) \<and>
            (cleanup ev td = None \<longrightarrow> r = Inl (the (doc_close ev h)))"
  proof (intro allI impI conjI)
    fix h assume f: "find (\<lambda>h. doc_close ev h \<noteq> None) (map snd ds) = Some h"
    then have "doc_close ev h \<noteq> None" by (auto simp: find_Some_iff)
    then show "h \<notin> set (takeWhile (\<lambda>h. doc_close ev h = None) (map snd ds))"
      by (auto dest: set_takeWhileD)
    assume cl: "cleanup ev td = None"
    from mr(2) [OF f cl] show "r = Inl (the (doc_close ev h))" by simp
  qed
  have rm: "\<forall>x. cleanup ev td = Some x \<longrightarrow> r = Inl x"
    using mr(3) by simp
  from mw(2,3) d all good bad rm show ?thesis by simp
qed

theorem failed_merge_cleans_up_witness:
  "(fst (create_merged_tiff sample_env [xdw_c, xdw_d, tif_missing] ''/out/m.tif'' ''group4'' empty_world)
      = Inl IndexError \<and>
    out_files (snd (create_merged_tiff sample_env [xdw_c, xdw_d, tif_missing] ''/out/m.tif'' ''group4'' empty_world))
      = out_files empty_world \<and>
    temp_dirs (snd (create_merged_tiff sample_env [xdw_c, xdw_d, tif_missing] ''/out/m.tif'' ''group4'' empty_world))
      ''/tmp/tmpdt'' = None \<and>
    opened (snd (create_merged_tiff sample_env [xdw_c, xdw_d, tif_missing] ''/out/m.tif'' ''group4'' empty_world))
      = [handle_c, handle_d] \<and>
    closed (snd (create_merged_tiff sample_env [xdw_c, xdw_d, tif_missing] ''/out/m.tif'' ''group4'' empty_world))
      = [handle_c, handle_d]) \<and>
   (fst (create_merged_tiff cleanup_fails_env [xdw_c, xdw_d, tif_missing] ''/out/m.tif'' ''group4'' empty_world)
      = Inl CleanupError \<and>
    out_files (snd (create_merged_tiff cleanup_fails_env [xdw_c, xdw_d, tif_missing] ''/out/m.tif'' ''group4'' empty_world))
      = out_files empty_world \<and>
    temp_dirs (snd (create_merged_tiff cleanup_fails_env [xdw_c, xdw_d, tif_missing] ''/out/m.tif'' ''group4'' empty_world))
      ''/tmp/tmpdt'' \<noteq> None \<and>
    closed (snd (create_merged_tiff cleanup_fails_env [xdw_c, xdw_d, tif_missing] ''/out/m.tif'' ''group4'' empty_world))
      = [handle_c, handle_d])"
proof -
  let ?L = "merge_pages sample_env ''/tmp/tmpdt'' ''group4'' 0 [xdw_c, xdw_d, tif_missing] [] []
              (enter_temp_dir ''/tmp/tmpdt'' empty_world)"
  let ?R = "create_merged_tiff sample_env [xdw_c, xdw_d, tif_missing] ''/out/m.tif'' ''group4'' empty_world"
  let ?L' = "merge_pages cleanup_fails_env ''/tmp/tmpdt'' ''group4'' 0 [xdw_c, xdw_d, tif_missing] [] []
              (enter_temp_dir ''/tmp/tmpdt'' empty_world)"
  let ?R' = "create_merged_tiff cleanup_fails_env [xdw_c, xdw_d, tif_missing] ''/out/m.tif'' ''group4'' empty_world"
  have e: "opened empty_world = []" "closed empty_world = []" by (simp_all add: empty_world_def)
  have td: "mkdtemp sample_env = Inr ''/tmp/tmpdt''" by (simp add: sample_env_def)
  have "fst ?L = Inl IndexError" by code_simp
  then have loop: "?L = (Inl IndexError, fst (snd ?L), snd (snd ?L))"
    by (metis prod.collapse)
  have res: "?R = (fst ?R, snd ?R)" by simp
  have hs: "map snd (fst (snd ?L)) = [handle_c, handle_d]" by code_simp
  have ok: "doc_close sample_env handle_c = None" "doc_close sample_env handle_d = None"
    "cleanup sample_env ''/tmp/tmpdt'' = None"
    by (simp_all add: sample_env_def)
  from failed_merge_cleans_up [OF td loop res]
  have a: "fst ?R = Inl IndexError \<and> out_files (snd ?R) = out_files empty_world \<and>
      temp_dirs (snd ?R) ''/tmp/tmpdt'' = None \<and> opened (snd ?R) = [handle_c, handle_d] \<and>
      closed (snd ?R) = [handle_c, handle_d]"
    unfolding hs by (simp add: ok e)
  have td': "mkdtemp cleanup_fails_env = Inr ''/tmp/tmpdt''"
    by (simp add: cleanup_fails_env_def sample_env_def)
  have "fst ?L' = Inl IndexError" by code_simp
  then have loop': "?L' = (Inl IndexError, fst (snd ?L'), snd (snd ?L'))"
    by (metis prod.collapse)
  have res': "?R' = (fst ?R', snd ?R')" by simp
  have hs': "map snd (fst (snd ?L')) = [handle_c, handle_d]" by code_simp
  have ok': "doc_close cleanup_fails_env handle_c = None" "doc_close cleanup_fails_env handle_d = None"
    "cleanup cleanup_fails_env ''/tmp/tmpdt'' = Some CleanupError"
    by (simp_all add: cleanup_fails_env_def sample_env_def)
  from failed_merge_cleans_up [OF td' loop' res']
  have b: "fst ?R' = Inl CleanupError \<and> out_files (snd ?R') = out_files empty_world \<and>
      temp_dirs (snd ?R') ''/tmp/tmpdt'' \<noteq> None \<and> closed (snd ?R') = [handle_c, handle_d]"
    unfolding hs' by (simp add: ok' e)
  from a b show ?thesis by (rule conjI)
qed

text \<open>
  C1, as the claim states it, fails: the third page cannot be read, two handles are
  open, closing the first raises and neither handle is closed when the error reaches
  the caller.
\<close>

theorem failed_merge_close_raises_counterexample:
  "mkdtemp close_fails_env = Inr ''/tmp/tmpdt'' \<and>
   fst (merge_pages close_fails_env ''/tmp/tmpdt'' ''group4'' 0 [xdw_c, xdw_d, tif_missing] [] []
          (enter_temp_dir ''/tmp/tmpdt'' empty_world)) = Inl IndexError \<and>
   fst (create_merged_tiff close_fails_env [xdw_c, xdw_d, tif_missing] ''/out/m.tif'' ''group4'' empty_world)
     = Inl CloseError \<and>
   opened (snd (create_merged_tiff close_fails_env [xdw_c, xdw_d, tif_missing] ''/out/m.tif'' ''group4'' empty_world))
     = [handle_c, handle_d] \<and>
   closed (snd (create_merged_tiff close_fails_env [xdw_c, xdw_d, tif_missing] ''/out/m.tif'' ''group4'' empty_world))
     = []"
  by (intro conjI; code_simp)

theorem merge_exit_closes_in_order_witness:
  "(opened (snd (create_merged_tiff sample_env [tif_a, xdw_c, xdw_d] ''/out/m.tif'' ''group4'' empty_world))
      = [handle_c, handle_d] \<and>
    closed (snd (create_merged_tiff sample_env [tif_a, xdw_c, xdw_d] ''/out/m.tif'' ''group4'' empty_world))
      = [handle_c, handle_d] \<and>
    fst (create_merged_tiff sample_env [tif_a, xdw_c, xdw_d] ''/out/m.tif'' ''group4'' empty_world) = Inr ()) \<and>
   (opened (snd (create_merged_tiff cleanup_fails_env [tif_a, xdw_c, xdw_d] ''/out/m.tif'' ''group4'' empty_world))
      = [handle_c, handle_d] \<and>
    closed (snd (create_merged_tiff cleanup_fails_env [tif_a, xdw_c, xdw_d] ''/out/m.tif'' ''group4'' empty_world))
      = [handle_c, handle_d] \<and>
    fst (create_merged_tiff cleanup_fails_env [tif_a, xdw_c, xdw_d] ''/out/m.tif'' ''group4'' empty_world)
      = Inl CleanupError) \<and>
   (opened (snd (create_merged_tiff close_fails_env [tif_a, xdw_c, xdw_d] ''/out/m.tif'' ''group4'' empty_world))
      = [handle_c, handle_d] \<and>
    closed (snd (create_merged_tiff close_fails_env [tif_a, xdw_c, xdw_d] ''/out/m.tif'' ''group4'' empty_world))
      = [] \<and>
    fst (create_merged_tiff close_fails_env [tif_a, xdw_c, xdw_d] ''/out/m.tif'' ''group4'' empty_world)
      = Inl CloseError)"
proof -
  let ?L = "merge_pages sample_env ''/tmp/tmpdt'' ''group4'' 0 [tif_a, xdw_c, xdw_d] [] []
              (enter_temp_dir ''/tmp/tmpdt'' empty_world)"
  let ?R = "create_merged_tiff sample_env [tif_a, xdw_c, xdw_d] ''/out/m.tif'' ''group4'' empty_world"
  let ?L' = "merge_pages cleanup_fails_env ''/tmp/tmpdt'' ''group4'' 0 [tif_a, xdw_c, xdw_d] [] []
              (enter_temp_dir ''/tmp/tmpdt'' empty_world)"
  let ?R' = "create_merged_tiff cleanup_fails_env [tif_a, xdw_c, xdw_d] ''/out/m.tif'' ''group4'' empty_world"
  let ?L'' = "merge_pages close_fails_env ''/tmp/tmpdt'' ''group4'' 0 [tif_a, xdw_c, xdw_d] [] []
              (enter_temp_dir ''/tmp/tmpdt'' empty_world)"
  let ?R'' = "create_merged_tiff close_fails_env [tif_a, xdw_c, xdw_d] ''/out/m.tif'' ''group4'' empty_world"
  have e: "opened empty_world = []" "closed empty_world = []" by (simp_all add: empty_world_def)
  have td: "mkdtemp sample_env = Inr ''/tmp/tmpdt''" by (simp add: sample_env_def)
  have loop: "?L = (fst ?L, fst (snd ?L), snd (snd ?L))" by simp
  have res: "?R = (fst ?R, snd ?R)" by simp
  have hs: "map snd (fst (snd ?L)) = [handle_c, handle_d]" by code_simp
  have fr: "fst ?L = Inr [\<lparr>mode = ''1'', pixels = [0, 1, 0]\<rparr>,
                        \<lparr>mode = ''1'', pixels = [1, 0, 0, 0, 0, 0]\<rparr>,
                        \<lparr>mode = ''1'', pixels = [0, 1, 0]\<rparr>]" by code_simp
  have ok: "doc_close sample_env handle_c = None" "doc_close sample_env handle_d = None"
    "save sample_env = (\<lambda>p fs c. None)" "cleanup sample_env ''/tmp/tmpdt'' = None"
    by (simp_all add: sample_env_def)
  from merge_exit_closes_in_order [OF td loop res]
  have a: "opened (snd ?R) = [handle_c, handle_d] \<and> closed (snd ?R) = [handle_c, handle_d] \<and>
      fst ?R = Inr ()"
    unfolding hs fr by (simp add: ok e)
  have td': "mkdtemp cleanup_fails_env = Inr ''/tmp/tmpdt''"
    by (simp add: cleanup_fails_env_def sample_env_def)
  have loop': "?L' = (fst ?L', fst (snd ?L'), snd (snd ?L'))" by simp
  have res': "?R' = (fst ?R', snd ?R')" by simp
  have hs': "map snd (fst (snd ?L')) = [handle_c, handle_d]" by code_simp
  have ok': "doc_close cleanup_fails_env handle_c = None" "doc_close cleanup_fails_env handle_d = None"
    "cleanup cleanup_fails_env ''/tmp/tmpdt'' = Some CleanupError"
    by (simp_all add: cleanup_fails_env_def sample_env_def)
  from merge_exit_closes_in_order [OF td' loop' res']
  have b: "opened (snd ?R') = [handle_c, handle_d] \<and> closed (snd ?R') = [handle_c, handle_d] \<and>
      fst ?R' = Inl CleanupError"
    unfolding hs' by (simp add: ok' e)
  have td'': "mkdtemp close_fails_env = Inr ''/tmp/tmpdt''"
    by (simp add: close_fails_env_def sample_env_def)
  have loop'': "?L'' = (fst ?L'', fst (snd ?L''), snd (snd ?L''))" by simp
  have res'': "?R'' = (fst ?R'', snd ?R'')" by simp
  have hs'': "map snd (fst (snd ?L'')) = [handle_c, handle_d]" by code_simp
  have ok'': "doc_close close_fails_env handle_c = Some CloseError"
    "cleanup close_fails_env ''/tmp/tmpdt'' = None"
    by (simp_all add: close_fails_env_def sample_env_def handle_c_def)
  from merge_exit_closes_in_order [OF td'' loop'' res'']
  have c: "opened (snd ?R'') = [handle_c, handle_d] \<and> closed (snd ?R'') = [] \<and>
      fst ?R'' = Inl CloseError"
    unfolding hs'' by (simp add: ok'' e)
  from a b c show ?thesis by simp
qed

text \<open>
  C2, as the claim states it, fails: every page is read, closing the first handle
  raises, the caller receives that exception instead of the merged file, and the second
  handle is never closed.
\<close>

theorem close_failure_propagates_counterexample:
  "mkdtemp close_fails_env = Inr ''/tmp/tmpdt'' \<and>
   \<not> isl (fst (merge_pages close_fails_env ''/tmp/tmpdt'' ''group4'' 0 [xdw_c, xdw_d] [] []
          (enter_temp_dir ''/tmp/tmpdt'' empty_world))) \<and>
   fst (create_merged_tiff close_fails_env [xdw_c, xdw_d] ''/out/m.tif'' ''group4'' empty_world)
     = Inl CloseError \<and>
   opened (snd (create_merged_tiff close_fails_env [xdw_c, xdw_d] ''/out/m.tif'' ''group4'' empty_world))
     = [handle_c, handle_d] \<and>
   closed (snd (create_merged_tiff close_fails_env [xdw_c, xdw_d] ''/out/m.tif'' ''group4'' empty_world))
     = [] \<and>
   out_files (snd (create_merged_tiff close_fails_env [xdw_c, xdw_d] ''/out/m.tif'' ''group4'' empty_world))
     ''/out/m.tif'' = None"
  by (intro conjI; code_simp)


subsection \<open>Page order of the output\<close>

text \<open>
  C4. A merge that succeeds had a non-empty list of entries, every entry has a frame,
  and the output file holds exactly these frames, one per entry and in the order of the
  entries: its i-th page is the frame read from the i-th entry, normalised when the
  compression is \<open>group4\<close>.
\<close>

theorem successful_merge_keeps_order:
  assumes "create_merged_tiff ev es out c w = (Inr (), w')"
  shows "es \<noteq> [] \<and> list_all (\<lambda>e. \<not> isl (page_frame ev c e)) es \<and>
         out_files w' out = Some (map (\<lambda>e. projr (page_frame ev c e)) es, c, 400, 400) \<and>
         length (fst (the (out_files w' out))) = length es \<and>
         (\<forall>i < length es. Inr (fst (the (out_files w' out)) ! i) = page_frame ev c (es ! i))"
proof (cases "mkdtemp ev")
  case (Inl exc)
  with assms show ?thesis by (simp add: create_merged_tiff_def)
next
  case (Inr td)
  obtain lr ds w1 where loop: "merge_pages ev td c 0 es [] [] (enter_temp_dir td w) = (lr, ds, w1)"
    by (metis prod_cases3)
  obtain cr w2 where cd: "close_docs ev (map snd ds) w1 = (cr, w2)" by force
  obtain xr w3 where ex: "exit_temp_dir ev td w2 = (xr, w3)" by force
  note st = create_merged_tiff_steps [OF Inr loop cd ex, of out]
  from st assms obtain frames where lr: "lr = Inr frames" and ne: "frames \<noteq> []"
    and w': "w' = w3\<lparr>out_files := (out_files w3)(out \<mapsto> (frames, c, 400, 400)),
                     fs_log := fs_log w3 @ [WriteFile out]\<rparr>"
    by (auto split: option.splits sum.splits if_splits)
  from merge_pages_effect [OF loop keyed_Nil] lr
  have m: "map (page_frame ev c) es = map Inr frames" by auto
  have out: "out_files w' out = Some (frames, c, 400, 400)" by (simp add: w')
  from m have len: "length es = length frames" by (metis length_map)
  with ne have es: "es \<noteq> []" by auto
  have nth: "\<forall>i < length es. page_frame ev c (es ! i) = Inr (frames ! i)"
  proof (intro allI impI)
    fix i assume i: "i < length es"
    then have "page_frame ev c (es ! i) = map (page_frame ev c) es ! i" by simp
    also have "\<dots> = Inr (frames ! i)" using i len unfolding m by simp
    finally show "page_frame ev c (es ! i) = Inr (frames ! i)" .
  qed
  have la: "list_all (\<lambda>e. \<not> isl (page_frame ev c e)) es"
    unfolding list_all_length using nth by simp
  have fr: "map (\<lambda>e. projr (page_frame ev c e)) es = frames"
    by (rule nth_equalityI) (simp_all add: len nth)
  from es la out fr len nth show ?thesis by simp
qed

theorem successful_merge_keeps_order_witness:
  "out_files (snd (create_merged_tiff sample_env [tif_a, xdw_c, tif_b] ''/out/m.tif'' ''group4'' empty_world))
     ''/out/m.tif''
   = Some (map (\<lambda>e. projr (page_frame sample_env ''group4'' e)) [tif_a, xdw_c, tif_b],
           ''group4'', 400, 400) \<and>
   map (\<lambda>e. projr (page_frame sample_env ''group4'' e)) [tif_a, xdw_c, tif_b]
   = [\<lparr>mode = ''1'', pixels = [0, 1, 0]\<rparr>, \<lparr>mode = ''1'', pixels = [1, 0, 0, 0, 0, 0]\<rparr>,
      bilevel_frame]"
proof -
  let ?R = "create_merged_tiff sample_env [tif_a, xdw_c, tif_b] ''/out/m.tif'' ''group4'' empty_world"
  have "fst ?R = Inr ()" by code_simp
  then have res: "?R = (Inr (), snd ?R)" by (metis prod.collapse)
  have fr: "map (\<lambda>e. projr (page_frame sample_env ''group4'' e)) [tif_a, xdw_c, tif_b]
   = [\<lparr>mode = ''1'', pixels = [0, 1, 0]\<rparr>, \<lparr>mode = ''1'', pixels = [1, 0, 0, 0, 0, 0]\<rparr>,
      bilevel_frame]" by code_simp
  from successful_merge_keeps_order [OF res] fr show ?thesis by simp
qed


subsection \<open>One handle for each document\<close>

lemma convert_cached:
  assumes "map_of ds (source_path e) = Some doc"
  shows "fst (snd (convert_docuworks_page ev e order td ds w0)) = ds"
    and "opened (snd (snd (convert_docuworks_page ev e order td ds w0))) = opened w0"
proof -
  obtain r1 w1 where x: "export_page ev doc e order td w0 = (r1, w1)" by force
  with assms have c: "convert_docuworks_page ev e order td ds w0 = (r1, ds, w1)"
    by (simp add: convert_docuworks_page_def)
  from c show "fst (snd (convert_docuworks_page ev e order td ds w0)) = ds" by simp
  from c export_page_effect [OF x]
  show "opened (snd (snd (convert_docuworks_page ev e order td ds w0))) = opened w0" by simp
qed

lemma convert_opens:
  assumes "map_of ds (source_path e) = None" "xdwopen ev (source_path e) = None"
  shows "fst (snd (convert_docuworks_page ev e order td ds w0))
           = ds @ [(source_path e, \<lparr>handle_path = source_path e, handle_id = length (opened w0)\<rparr>)]"
    and "opened (snd (snd (convert_docuworks_page ev e order td ds w0)))
           = opened w0 @ [\<lparr>handle_path = source_path e, handle_id = length (opened w0)\<rparr>]"
proof -
  let ?doc = "\<lparr>handle_path = source_path e, handle_id = length (opened w0)\<rparr>"
  obtain r1 w1 where x: "export_page ev ?doc e order td (w0\<lparr>opened := opened w0 @ [?doc]\<rparr>) = (r1, w1)"
    by force
  with assms have c: "convert_docuworks_page ev e order td ds w0 = (r1, ds @ [(source_path e, ?doc)], w1)"
    by (simp add: convert_docuworks_page_def Let_def)
  from c show "fst (snd (convert_docuworks_page ev e order td ds w0)) = ds @ [(source_path e, ?doc)]"
    by simp
  from c export_page_effect [OF x]
  show "opened (snd (snd (convert_docuworks_page ev e order td ds w0))) = opened w0 @ [?doc]" by simp
qed

text \<open>
  C8. The handles a merge opens are on pairwise distinct paths, all of them paths of
  document entries of the list, and a merge that succeeds has opened exactly one handle
  for each such path. A page of a path already in the dictionary opens nothing and
  leaves the dictionary as it is; a page of a path not yet in it opens one handle and
  files it under the path.
\<close>

theorem one_handle_per_document:
  assumes "create_merged_tiff ev es out c w = (r, w')"
  shows "(\<exists>hs. opened w' = opened w @ hs \<and> distinct (map handle_path hs) \<and>
               set (map handle_path hs) \<subseteq> set (docuworks_paths es) \<and>
               (r = Inr () \<longrightarrow> set (map handle_path hs) = set (docuworks_paths es))) \<and>
         (map_of ds (source_path e) = Some doc \<longrightarrow>
            fst (snd (convert_docuworks_page ev e order td ds w0)) = ds \<and>
            opened (snd (snd (convert_docuworks_page ev e order td ds w0))) = opened w0) \<and>
         (map_of ds (source_path e) = None \<and> xdwopen ev (source_path e) = None \<longrightarrow>
            fst (snd (convert_docuworks_page ev e order td ds w0))
              = ds @ [(source_path e, \<lparr>handle_path = source_path e, handle_id = length (opened w0)\<rparr>)] \<and>
            opened (snd (snd (convert_docuworks_page ev e order td ds w0)))
              = opened w0 @ [\<lparr>handle_path = source_path e, handle_id = length (opened w0)\<rparr>])"
proof -
  have glob: "\<exists>hs. opened w' = opened w @ hs \<and> distinct (map handle_path hs) \<and>
               set (map handle_path hs) \<subseteq> set (docuworks_paths es) \<and>
               (r = Inr () \<longrightarrow> set (map handle_path hs) = set (docuworks_paths es))"
  proof (cases "mkdtemp ev")
    case (Inl exc)
    with assms have "w' = w" "r = Inl exc" by (simp_all add: create_merged_tiff_def)
    then have "opened w' = opened w @ [] \<and> distinct (map handle_path []) \<and>
               set (map handle_path []) \<subseteq> set (docuworks_paths es) \<and>
               (r = Inr () \<longrightarrow> set (map handle_path []) = set (docuworks_paths es))" by simp
    then show ?thesis by blast
  next
    case (Inr tmp)
    obtain lr dd w1
      where loop: "merge_pages ev tmp c 0 es [] [] (enter_temp_dir tmp w) = (lr, dd, w1)"
      by (metis prod_cases3)
    note mw = merged_world [OF Inr loop assms] and lh = loop_handles [OF loop]
    note kd = keyed_distinct_handles [OF lh(1)]
    have d: "distinct (map handle_path (map snd dd))" using lh(1) unfolding kd(2) by (simp add: keyed_def)
    have sub: "set (map handle_path (map snd dd)) \<subseteq> set (docuworks_paths es)"
      unfolding kd(2) by (rule lh(5))
    have eq: "r = Inr () \<longrightarrow> set (map handle_path (map snd dd)) = set (docuworks_paths es)"
    proof
      assume ok: "r = Inr ()"
      obtain cr w2 where cd: "close_docs ev (map snd dd) w1 = (cr, w2)" by force
      obtain xr w3 where ex: "exit_temp_dir ev tmp w2 = (xr, w3)" by force
      from create_merged_tiff_steps [OF Inr loop cd ex, of out] assms ok
      obtain frames where "lr = Inr frames"
        by (auto split: option.splits sum.splits if_splits)
      with merge_pages_effect [OF loop keyed_Nil]
      have "set (docuworks_paths es) \<subseteq> set (map fst dd)" by simp
      with sub show "set (map handle_path (map snd dd)) = set (docuworks_paths es)"
        unfolding kd(2) by blast
    qed
    from mw(2) d sub eq show ?thesis by blast
  qed
  from glob convert_cached [of ds e doc ev order td w0] convert_opens [of ds e ev order td w0]
  show ?thesis by simp
qed

theorem one_handle_per_document_witness:
  "distinct (map handle_path (opened (snd (create_merged_tiff sample_env
       [xdw_c, tif_a, xdw_c\<lparr>page_index := 1\<rparr>, xdw_d] ''/out/m.tif'' ''group4'' empty_world)))) \<and>
   set (map handle_path (opened (snd (create_merged_tiff sample_env
       [xdw_c, tif_a, xdw_c\<lparr>page_index := 1\<rparr>, xdw_d] ''/out/m.tif'' ''group4'' empty_world))))
     = set (docuworks_paths [xdw_c, tif_a, xdw_c\<lparr>page_index := 1\<rparr>, xdw_d]) \<and>
   docuworks_paths [xdw_c, tif_a, xdw_c\<lparr>page_index := 1\<rparr>, xdw_d]
     = [''/in/c.xdw'', ''/in/c.xdw'', ''/in/d.xdw''] \<and>
   opened (snd (create_merged_tiff sample_env
       [xdw_c, tif_a, xdw_c\<lparr>page_index := 1\<rparr>, xdw_d] ''/out/m.tif'' ''group4'' empty_world))
     = [handle_c, handle_d]"
proof -
  let ?es = "[xdw_c, tif_a, xdw_c\<lparr>page_index := 1\<rparr>, xdw_d]"
  let ?R = "create_merged_tiff sample_env ?es ''/out/m.tif'' ''group4'' empty_world"
  have "fst ?R = Inr ()" by code_simp
  then have res: "?R = (Inr (), snd ?R)" by (metis prod.collapse)
  have e: "opened empty_world = []" by (simp add: empty_world_def)
  have dp: "docuworks_paths ?es = [''/in/c.xdw'', ''/in/c.xdw'', ''/in/d.xdw'']" by code_simp
  have op: "opened (snd ?R) = [handle_c, handle_d]" by code_simp
  from one_handle_per_document [OF res, THEN conjunct1]
  obtain hs where "opened (snd ?R) = opened empty_world @ hs" "distinct (map handle_path hs)"
    "set (map handle_path hs) = set (docuworks_paths ?es)" by blast
  then have "distinct (map handle_path (opened (snd ?R)))"
    "set (map handle_path (opened (snd ?R))) = set (docuworks_paths ?es)"
    by (simp_all add: e)
  with dp op show ?thesis by simp
qed


subsection \<open>A merge of no pages\<close>




end
